theory Spec2Isabelle
  imports Complex_Main "HOL-Library.Sublist"
begin

section \<open>Values of the platform\<close>

text \<open>
  The worker runs on a JavaScript platform. An exception thrown by a call is a value
  \<open>Inl e\<close> of the call's result; a normal return is \<open>Inr v\<close>. Header values and the
  output of \<open>atob\<close> are strings of code points below 256, which is what \<open>char\<close> holds.
  Times are the integer milliseconds \<open>Date.now()\<close> returns; on integers below \<open>2 ^ 53\<close>
  the arithmetic of JavaScript numbers is exact, so they are modelled as \<open>int\<close>.
\<close>

datatype js_error = Store_failure | Syntax_error | Invalid_character_error | Network_failure

text \<open>
  A key-value namespace binding: an object with the two methods the worker calls. The
  store's content is the state \<open>'s\<close> that both methods read and may change; either method
  may throw. \<open>'v\<close> is what is stored under a key.
\<close>

record ('v, 's) kv_namespace =
  kv_get :: "string \<Rightarrow> 's \<Rightarrow> (js_error + 'v option) \<times> 's"
  kv_put :: "string \<Rightarrow> 'v \<Rightarrow> nat \<Rightarrow> 's \<Rightarrow> (js_error + unit) \<times> 's"

text \<open>
  An in-memory namespace that never throws: a map from keys to the stored item and the
  \<open>expirationTtl\<close> it was written with.
\<close>

definition memory_kv :: "('v, string \<rightharpoonup> 'v \<times> nat) kv_namespace" where
  "memory_kv =
     \<lparr>kv_get = (\<lambda>k m. (Inr (map_option fst (m k)), m)),
      kv_put = (\<lambda>k v ttl m. (Inr (), m(k \<mapsto> (v, ttl))))\<rparr>"

section \<open>Rate limiter\<close>

text \<open>
  Source: \<^verbatim>\<open>src/unnamed/part_007\<close>, lines 1 to 143 (the module the worker imports as
  \<^verbatim>\<open>./security/rate_limiter.js\<close>).
\<close>

definition MAX_TOKENS :: int where "MAX_TOKENS = 60"
definition REFILL_RATE :: int where "REFILL_RATE = 1"
definition WINDOW_SIZE :: nat where "WINDOW_SIZE = 60"

record rate_limit_state =
  tokens :: int
  lastRefill :: int
  requestCount :: int

text \<open>
  The text stored under a \<open>ratelimit:\<close> key, by what \<open>JSON.parse\<close> makes of it: the empty
  string (falsy, so never parsed), a text that is not JSON, or the serialisation of a
  state. Only \<open>checkLimit\<close> writes under this prefix, and it writes
  \<open>JSON.stringify(state)\<close>, whose fields are integers.
\<close>

datatype stored_text = Empty_text | Malformed_text | State_text rate_limit_state

fun JSON_parse :: "stored_text \<Rightarrow> js_error + rate_limit_state" where
  "JSON_parse (State_text st) = Inr st"
| "JSON_parse Malformed_text = Inl Syntax_error"
| "JSON_parse Empty_text = Inl Syntax_error"

definition JSON_stringify :: "rate_limit_state \<Rightarrow> stored_text" where
  "JSON_stringify st = State_text st"

text \<open>The object \<open>{allowed, retryAfter?}\<close> that \<open>checkLimit\<close> resolves to.\<close>

record limit_result =
  allowed :: bool
  retryAfter :: "int option"

definition tokensToAdd :: "int \<Rightarrow> rate_limit_state \<Rightarrow> int" where
  "tokensToAdd now st =
     \<lfloor>(real_of_int (now - lastRefill st) / 1000) * real_of_int REFILL_RATE\<rfloor>"

text \<open>Lines 56 to 64: the refill.\<close>

definition refill :: "int \<Rightarrow> rate_limit_state \<Rightarrow> rate_limit_state" where
  "refill now st =
     (if tokensToAdd now st > 0
      then st\<lparr>tokens := min MAX_TOKENS (tokens st + tokensToAdd now st), lastRefill := now\<rparr>
      else st)"

text \<open>
  The body of the \<open>try\<close> block. A throw of \<open>kv.get\<close>, \<open>JSON.parse\<close> or \<open>kv.put\<close> leaves the
  block at once with \<open>Inl\<close>.
\<close>

definition checkLimit_try ::
  "(stored_text, 's) kv_namespace \<Rightarrow> string \<Rightarrow> int \<Rightarrow> 's \<Rightarrow> (js_error + limit_result) \<times> 's"
where
  "checkLimit_try kv key now s =
     (case kv_get kv key s of
        (Inl e, s1) \<Rightarrow> (Inl e, s1)
      | (Inr stateJson, s1) \<Rightarrow>
          (case (case stateJson of
                   None \<Rightarrow> Inr \<lparr>tokens = MAX_TOKENS, lastRefill = now, requestCount = 0\<rparr>
                 | Some Empty_text \<Rightarrow>
                     Inr \<lparr>tokens = MAX_TOKENS, lastRefill = now, requestCount = 0\<rparr>
                 | Some txt \<Rightarrow> JSON_parse txt) of
             Inl e \<Rightarrow> (Inl e, s1)
           | Inr st0 \<Rightarrow>
               (let st = refill now st0 in
                if tokens st \<ge> 1 then
                  (let st' = st\<lparr>tokens := tokens st - 1, requestCount := requestCount st + 1\<rparr> in
                   case kv_put kv key (JSON_stringify st') (WINDOW_SIZE * 2) s1 of
                     (Inl e, s2) \<Rightarrow> (Inl e, s2)
                   | (Inr _, s2) \<Rightarrow> (Inr \<lparr>allowed = True, retryAfter = None\<rparr>, s2))
                else
                  (let secondsUntilToken = 1 / real_of_int REFILL_RATE;
                       retry = \<lceil>secondsUntilToken\<rceil> in
                   case kv_put kv key (JSON_stringify st) (WINDOW_SIZE * 2) s1 of
                     (Inl e, s2) \<Rightarrow> (Inl e, s2)
                   | (Inr _, s2) \<Rightarrow>
                       (Inr \<lparr>allowed = False, retryAfter = Some retry\<rparr>, s2)))))"

text \<open>
  \<open>checkLimit(clientIp, kv)\<close> at time \<open>now\<close>, on a store in state \<open>s\<close>. An absent binding
  is \<open>None\<close>; a falsy \<open>clientIp\<close> is the empty string. The \<open>catch\<close> turns every throw of
  the body into \<open>{allowed: true}\<close>.
\<close>

definition checkLimit ::
  "string \<Rightarrow> (stored_text, 's) kv_namespace option \<Rightarrow> int \<Rightarrow> 's \<Rightarrow> limit_result \<times> 's"
where
  "checkLimit clientIp kv now s =
     (case kv of
        None \<Rightarrow> (\<lparr>allowed = True, retryAfter = None\<rparr>, s)
      | Some ns \<Rightarrow>
          if clientIp = [] then (\<lparr>allowed = True, retryAfter = None\<rparr>, s)
          else
            (case checkLimit_try ns (''ratelimit:'' @ clientIp) now s of
               (Inl e, s') \<Rightarrow> (\<lparr>allowed = True, retryAfter = None\<rparr>, s')
             | (Inr r, s') \<Rightarrow> (r, s')))"

text \<open>
  A run of \<open>checkLimit\<close> calls for one client at the given times, against the in-memory
  namespace; \<open>stored_tokens\<close> reads the \<open>tokens\<close> field of the state persisted for a client.
\<close>

type_synonym limiter_store = "string \<rightharpoonup> stored_text \<times> nat"

fun checkLimit_calls :: "string \<Rightarrow> int list \<Rightarrow> limiter_store \<Rightarrow> limiter_store" where
  "checkLimit_calls clientIp [] m = m"
| "checkLimit_calls clientIp (now # ts) m =
     checkLimit_calls clientIp ts (snd (checkLimit clientIp (Some memory_kv) now m))"

definition stored_tokens :: "limiter_store \<Rightarrow> string \<Rightarrow> int option" where
  "stored_tokens m clientIp =
     (case m (''ratelimit:'' @ clientIp) of
        Some (State_text st, ttl) \<Rightarrow> Some (tokens st)
      | _ \<Rightarrow> None)"

subsection \<open>getClientIp\<close>

text \<open>
  \<open>request.headers.get\<close> is a partial map from header names to values. A string is
  truthy when it is present and not empty.
\<close>

type_synonym headers = "string \<rightharpoonup> string"

fun split :: "char \<Rightarrow> string \<Rightarrow> string list" where
  "split sep [] = [[]]"
| "split sep (c # cs) =
     (if c = sep then [] # split sep cs
      else (case split sep cs of [] \<Rightarrow> [[c]] | p # ps \<Rightarrow> (c # p) # ps))"

text \<open>
  \<open>String.prototype.trim\<close> removes white space and line terminators from both ends;
  below code point 256 these are tab, line feed, vertical tab, form feed, carriage
  return, space and the no-break space.
\<close>

definition is_white_space :: "char \<Rightarrow> bool" where
  "is_white_space c \<longleftrightarrow>
     c \<in> set [CHR 0x09, CHR 0x0A, CHR 0x0B, CHR 0x0C, CHR 0x0D, CHR 0x20, CHR 0xA0]"

definition trim :: "string \<Rightarrow> string" where
  "trim s = rev (dropWhile is_white_space (rev (dropWhile is_white_space s)))"

definition getClientIp :: "headers \<Rightarrow> string" where
  "getClientIp hdrs =
     (case hdrs ''CF-Connecting-IP'' of
        Some (c # cs) \<Rightarrow> c # cs
      | _ \<Rightarrow>
          (case hdrs ''X-Forwarded-For'' of
             Some (c # cs) \<Rightarrow>
               (case split CHR '','' (c # cs) of first # _ \<Rightarrow> trim first | [] \<Rightarrow> [])
           | _ \<Rightarrow>
               (case hdrs ''X-Real-IP'' of
                  Some (c # cs) \<Rightarrow> c # cs
                | _ \<Rightarrow> ''unknown'')))"

section \<open>Bot detection\<close>

text \<open>Source: \<^verbatim>\<open>src/utils/bot_detector.js\<close>, lines 8 to 28.\<close>

text \<open>
  \<open>toLowerCase\<close> on code points below 256: the ASCII capitals and the Latin-1 capitals
  (192 to 222 without the multiplication sign 215) move up by 32.
\<close>

definition lower_char :: "char \<Rightarrow> char" where
  "lower_char c =
     (let n = (of_char c :: nat) in
      if (65 \<le> n \<and> n \<le> 90) \<or> (192 \<le> n \<and> n \<le> 222 \<and> n \<noteq> 215)
      then char_of (n + 32) else c)"

definition toLowerCase :: "string \<Rightarrow> string" where
  "toLowerCase s = map lower_char s"

text \<open>\<open>s.includes(p)\<close>: \<open>p\<close> occurs in \<open>s\<close> as a contiguous run.\<close>

definition includes_str :: "string \<Rightarrow> string \<Rightarrow> bool" where
  "includes_str s p = sublist p s"

definition botPatterns :: "string list" where
  "botPatterns =
     [''facebookexternalhit'', ''WhatsApp'', ''Twitterbot'', ''TelegramBot'', ''Slackbot'',
      ''LinkedInBot'', ''Discordbot'', ''SkypeUriPreview'', ''Snapchat'', ''Pinterest'',
      ''Googlebot'', ''bingbot'']"

text \<open>The argument is \<open>None\<close> when the caller passes \<open>null\<close> or \<open>undefined\<close>.\<close>

definition isSocialMediaBot :: "string option \<Rightarrow> bool" where
  "isSocialMediaBot userAgent =
     (case userAgent of
        None \<Rightarrow> False
      | Some [] \<Rightarrow> False
      | Some ua \<Rightarrow>
          (let lowerUserAgent = toLowerCase ua in
           list_ex (\<lambda>pattern. includes_str lowerUserAgent (toLowerCase pattern)) botPatterns))"

text \<open>
  The specification's words for the match, independent of \<open>toLowerCase\<close>: two characters
  are equal ignoring case when they are the same, or one is a capital ASCII letter (code
  65 to 90) and the other its small form (the code plus 32). Every signature consists of
  ASCII letters only.
\<close>

definition equal_ignoring_case :: "char \<Rightarrow> char \<Rightarrow> bool" where
  "equal_ignoring_case c d \<longleftrightarrow>
     c = d
     \<or> (65 \<le> (of_char c :: nat) \<and> (of_char c :: nat) \<le> 90 \<and> (of_char d :: nat) = of_char c + 32)
     \<or> (65 \<le> (of_char d :: nat) \<and> (of_char d :: nat) \<le> 90 \<and> (of_char c :: nat) = of_char d + 32)"

section \<open>Metadata fetch and cache\<close>

text \<open>
  Source: \<^verbatim>\<open>src/utils/bot_detector.js\<close>, lines 41 to 94 (the module the handler imports
  as \<^verbatim>\<open>../utils/metadata_fetcher.js\<close>).
\<close>

text \<open>
  A JSON value, as \<open>response.json()\<close> returns it; number literals are taken as integers.
  \<open>truthy\<close> is the coercion of \<open>if (metadata)\<close> and \<open>!metadata\<close>.
\<close>

datatype json =
    Json_null
  | Json_bool bool
  | Json_number int
  | Json_string string
  | Json_array "json list"
  | Json_object "(string \<times> json) list"

fun truthy :: "json \<Rightarrow> bool" where
  "truthy Json_null = False"
| "truthy (Json_bool b) = b"
| "truthy (Json_number n) = (n \<noteq> 0)"
| "truthy (Json_string s) = (s \<noteq> [])"
| "truthy (Json_array xs) = True"
| "truthy (Json_object kvs) = True"

text \<open>
  The entry under a \<open>metadata:\<close> key, as \<open>get(cacheKey, 'json')\<close> parses it. Only
  \<open>fetchAndCacheMetadata\<close> writes under this prefix, and it writes
  \<open>JSON.stringify({data, timestamp})\<close>.
\<close>

record cached_metadata =
  data :: json
  timestamp :: int

text \<open>
  What the upstream does with one \<open>fetch\<close>: the call throws, or it resolves to a response
  with a status and a body that \<open>response.json()\<close> parses or rejects. \<open>response.ok\<close> is
  a status from 200 to 299.
\<close>

datatype fetch_reply = Fetch_throws js_error | Response nat "js_error + json"

definition response_ok :: "nat \<Rightarrow> bool" where
  "response_ok status \<longleftrightarrow> 200 \<le> status \<and> status \<le> 299"

text \<open>
  The platform functions the fetcher calls are parameters: \<open>encodeURIComponent\<close> and the
  behaviour of \<open>fetch\<close> on a URL (the request headers are fixed).
\<close>

record platform =
  encodeURIComponent :: "string \<Rightarrow> string"
  fetch :: "string \<Rightarrow> fetch_reply"

record config =
  unituneApiEndpoint :: string
  debugLogging :: bool

text \<open>
  The value of \<open>musicUrl\<close>. A property read on the object literal \<open>urls\<close> that finds no own
  property continues on \<open>Object.prototype\<close>, whose members are not strings.
\<close>

datatype js_value = Js_string string | Prototype_member string

definition Object_prototype_members :: "string list" where
  "Object_prototype_members =
     [''constructor'', ''__defineGetter__'', ''__defineSetter__'', ''hasOwnProperty'',
      ''__lookupGetter__'', ''__lookupSetter__'', ''isPrototypeOf'', ''propertyIsEnumerable'',
      ''toString'', ''valueOf'', ''__proto__'', ''toLocaleString'']"

fun ToString :: "js_value \<Rightarrow> string" where
  "ToString (Js_string s) = s"
| "ToString (Prototype_member name) =
     (if name = ''__proto__'' then ''[object Object]''
      else if name = ''constructor'' then ''function Object() { [native code] }''
      else ''function '' @ name @ ''() { [native code] }'')"

text \<open>
  \<open>fetchAndCacheMetadata(musicUrl, encodedPath, config, env)\<close> with \<open>env.SONG_CACHE\<close> given
  as an optional namespace. \<open>t_read\<close> and \<open>t_write\<close> are what \<open>Date.now()\<close> returns at the
  freshness test and at the cache write. The result is the value returned or the
  exception thrown to the caller, the URLs fetched, and the store afterwards. The cache
  read stands before the \<open>try\<close>; the fetch, the parse of the body and the cache write
  stand inside it, and its \<open>catch\<close> returns \<open>null\<close>. Calls of \<open>log\<close> only write to the
  console.
\<close>

definition fetchAndCacheMetadata ::
  "platform \<Rightarrow> js_value \<Rightarrow> string \<Rightarrow> config \<Rightarrow> (cached_metadata, 's) kv_namespace option \<Rightarrow>
   int \<Rightarrow> int \<Rightarrow> 's \<Rightarrow> (js_error + json) \<times> string list \<times> 's"
where
  "fetchAndCacheMetadata pf musicUrl encodedPath config SONG_CACHE t_read t_write s =
     (let cacheKey = ''metadata:'' @ encodedPath;
          lookup =
            (case SONG_CACHE of
               None \<Rightarrow> (Inr None, s)
             | Some ns \<Rightarrow>
                 (case kv_get ns cacheKey s of
                    (Inl e, s1) \<Rightarrow> (Inl e, s1)
                  | (Inr None, s1) \<Rightarrow> (Inr None, s1)
                  | (Inr (Some cached), s1) \<Rightarrow>
                      if timestamp cached \<noteq> 0 \<and> t_read - timestamp cached < 86400000
                      then (Inr (Some (data cached)), s1)
                      else (Inr None, s1)))
      in case lookup of
           (Inl e, s1) \<Rightarrow> (Inl e, [], s1)
         | (Inr (Some hit), s1) \<Rightarrow> (Inr hit, [], s1)
         | (Inr None, s1) \<Rightarrow>
             (let apiUrl = unituneApiEndpoint config @ ''?url=''
                             @ encodeURIComponent pf (ToString musicUrl)
              in case fetch pf apiUrl of
                   Fetch_throws e \<Rightarrow> (Inr Json_null, [apiUrl], s1)
                 | Response status body \<Rightarrow>
                     if response_ok status then
                       (case body of
                          Inl e \<Rightarrow> (Inr Json_null, [apiUrl], s1)
                        | Inr metadata \<Rightarrow>
                            (case SONG_CACHE of
                               None \<Rightarrow> (Inr metadata, [apiUrl], s1)
                             | Some ns \<Rightarrow>
                                 if truthy metadata then
                                   (case kv_put ns cacheKey
                                           \<lparr>data = metadata, timestamp = t_write\<rparr> 86400 s1 of
                                      (Inl e, s2) \<Rightarrow> (Inr Json_null, [apiUrl], s2)
                                    | (Inr _, s2) \<Rightarrow> (Inr metadata, [apiUrl], s2))
                                 else (Inr metadata, [apiUrl], s1)))
                     else (Inr Json_null, [apiUrl], s1)))"

section \<open>URL reconstruction\<close>

text \<open>Source: \<^verbatim>\<open>src/utils/url_validator.js\<close>, lines 43 to 55.\<close>

definition urls :: "string \<Rightarrow> string \<Rightarrow> (string \<times> string) list" where
  "urls type id' =
     [(''spotify'', ''https://open.spotify.com/'' @ type @ ''/'' @ id'),
      (''tidal'', ''https://tidal.com/browse/'' @ type @ ''/'' @ id'),
      (''applemusic'', ''https://music.apple.com/us/song/'' @ id'),
      (''youtubemusic'', ''https://music.youtube.com/watch?v='' @ id'),
      (''youtube'', ''https://youtube.com/watch?v='' @ id'),
      (''deezer'', ''https://www.deezer.com/'' @ type @ ''/'' @ id'),
      (''amazonmusic'', ''https://music.amazon.com/tracks/'' @ id')]"

text \<open>
  \<open>urls[key]\<close>: the own property when there is one, else the member of
  \<open>Object.prototype\<close> of that name, else \<open>undefined\<close> (\<open>None\<close>).
\<close>

definition property_get :: "(string \<times> string) list \<Rightarrow> string \<Rightarrow> js_value option" where
  "property_get obj key =
     (case map_of obj key of
        Some v \<Rightarrow> Some (Js_string v)
      | None \<Rightarrow> if key \<in> set Object_prototype_members then Some (Prototype_member key) else None)"

text \<open>
  \<open>urls[platform.toLowerCase()] || null\<close>; the result \<open>None\<close> is \<open>null\<close>. An empty string
  would be falsy, and every member of the prototype is truthy.
\<close>

definition reconstructMusicUrl :: "string \<Rightarrow> string \<Rightarrow> string \<Rightarrow> js_value option" where
  "reconstructMusicUrl platform type id' =
     (case property_get (urls type id') (toLowerCase platform) of
        None \<Rightarrow> None
      | Some (Js_string []) \<Rightarrow> None
      | Some v \<Rightarrow> Some v)"

section \<open>Share links\<close>

text \<open>Source: \<^verbatim>\<open>src/constants/services.js\<close>, lines 68 to 172.\<close>

subsection \<open>Base64\<close>

text \<open>
  \<open>atob\<close> is the platform's forgiving Base64 decoder: it drops ASCII white space, drops
  one or two trailing \<open>=\<close> from a text whose length is a multiple of four, throws when the
  length then leaves remainder one or when a character is outside the standard alphabet,
  and turns each four characters into three bytes, discarding the spare bits of a last
  group of two or three characters.
\<close>

definition b64_value :: "char \<Rightarrow> nat option" where
  "b64_value c =
     (let n = (of_char c :: nat) in
      if 65 \<le> n \<and> n \<le> 90 then Some (n - 65)
      else if 97 \<le> n \<and> n \<le> 122 then Some (n - 71)
      else if 48 \<le> n \<and> n \<le> 57 then Some (n + 4)
      else if n = 43 then Some 62
      else if n = 47 then Some 63
      else None)"

definition is_ascii_whitespace :: "char \<Rightarrow> bool" where
  "is_ascii_whitespace c \<longleftrightarrow> c \<in> set [CHR 0x09, CHR 0x0A, CHR 0x0C, CHR 0x0D, CHR 0x20]"

definition strip_padding :: "string \<Rightarrow> string" where
  "strip_padding d =
     (if length d mod 4 = 0 then
        (if suffix ''=='' d then take (length d - 2) d
         else if suffix ''='' d then take (length d - 1) d
         else d)
      else d)"

fun sextets_to_bytes :: "nat list \<Rightarrow> nat list" where
  "sextets_to_bytes (a # b # c # d # rest) =
     (a * 4 + b div 16) # ((b mod 16) * 16 + c div 4) # ((c mod 4) * 64 + d)
       # sextets_to_bytes rest"
| "sextets_to_bytes [a, b, c] = [a * 4 + b div 16, (b mod 16) * 16 + c div 4]"
| "sextets_to_bytes [a, b] = [a * 4 + b div 16]"
| "sextets_to_bytes [a] = []"
| "sextets_to_bytes [] = []"

definition atob :: "string \<Rightarrow> js_error + string" where
  "atob input =
     (let d = strip_padding (filter (\<lambda>c. \<not> is_ascii_whitespace c) input) in
      if length d mod 4 = 1 then Inl Invalid_character_error
      else (case those (map b64_value d) of
              None \<Rightarrow> Inl Invalid_character_error
            | Some vs \<Rightarrow> Inr (map char_of (sextets_to_bytes vs))))"

text \<open>
  Modelled from the spec: the encoder of share links is not part of the worker. The
  specification calls it the URL-safe Base64 encoding; this is the base64url encoding of
  RFC 4648, with the padding characters written or left out.
\<close>

fun bytes_to_sextets :: "nat list \<Rightarrow> nat list" where
  "bytes_to_sextets (x # y # z # rest) =
     (x div 4) # ((x mod 4) * 16 + y div 16) # ((y mod 16) * 4 + z div 64) # (z mod 64)
       # bytes_to_sextets rest"
| "bytes_to_sextets [x, y] = [x div 4, (x mod 4) * 16 + y div 16, (y mod 16) * 4]"
| "bytes_to_sextets [x] = [x div 4, (x mod 4) * 16]"
| "bytes_to_sextets [] = []"

definition b64url_char :: "nat \<Rightarrow> char" where
  "b64url_char v =
     char_of (if v < 26 then v + 65 else if v < 52 then v + 71 else if v < 62 then v - 4
              else if v = 62 then 45 else (95 :: nat))"

definition base64url_encode :: "bool \<Rightarrow> string \<Rightarrow> string" where
  "base64url_encode padding s =
     map b64url_char (bytes_to_sextets (map of_char s))
     @ (if padding then replicate ((3 - length s mod 3) mod 3) CHR ''='' else [])"

subsection \<open>handleShareLink\<close>

text \<open>The loop \<open>while (padded.length % 4 !== 0) padded += '='\<close>.\<close>

lemma pad_step:
  "(n::nat) mod 4 \<noteq> 0 \<Longrightarrow> (4 - n mod 4) mod 4 = Suc ((4 - Suc n mod 4) mod 4)"
proof -
  assume a: "n mod 4 \<noteq> 0"
  have "n mod 4 < 4" by simp
  then consider "n mod 4 = 1" | "n mod 4 = 2" | "n mod 4 = 3" using a by linarith
  then show ?thesis by cases (simp_all add: mod_Suc)
qed

function pad_base64 :: "string \<Rightarrow> string" where
  "pad_base64 padded = (if length padded mod 4 \<noteq> 0 then pad_base64 (padded @ ''='') else padded)"
  by pat_completeness auto
termination
proof (relation "measure (\<lambda>padded. (4 - length padded mod 4) mod 4)")
  show "wf (measure (\<lambda>padded. (4 - length padded mod 4) mod 4))" by simp
next
  fix padded :: string
  assume "length padded mod 4 \<noteq> 0"
  then show "(padded @ ''='', padded) \<in> measure (\<lambda>padded. (4 - length padded mod 4) mod 4)"
    using pad_step [of "length padded"] by simp
qed

declare pad_base64.simps [simp del]

definition replace_all :: "char \<Rightarrow> char \<Rightarrow> string \<Rightarrow> string" where
  "replace_all a b s = map (\<lambda>c. if c = a then b else c) s"

text \<open>What the two replacements \<open>replace(/-/g, '+')\<close> and \<open>replace(/_/g, '/')\<close> do to one character.\<close>

definition url_to_std :: "char \<Rightarrow> char" where
  "url_to_std c = (if (if c = CHR ''-'' then CHR ''+'' else c) = CHR ''_'' then CHR ''/''
                   else (if c = CHR ''-'' then CHR ''+'' else c))"

fun join :: "string \<Rightarrow> string list \<Rightarrow> string" where
  "join sep [] = []"
| "join sep [p] = p"
| "join sep (p # q # ps) = p @ sep @ join sep (q # ps)"

text \<open>
  A response: an error page with its status and message, or a page with the HTML text a
  renderer made (status 200).
\<close>

datatype response =
    Error_page nat string
  | Html_page string

text \<open>
  The \<open>try\<close> block that decodes the path: it returns a response at once, or leaves
  \<open>musicUrl\<close> set (\<open>Some\<close>) or \<open>null\<close>. Only \<open>atob\<close> can throw in it.
\<close>

datatype decoded = Respond response | Music_url "js_value option"

definition decode_share_link :: "string \<Rightarrow> decoded" where
  "decode_share_link pathAfterS =
     (case atob (replace_all CHR ''_'' CHR ''/'' (replace_all CHR ''-'' CHR ''+''
                   (pad_base64 pathAfterS))) of
        Inl e \<Rightarrow> Respond (Error_page 400 ''Invalid share link format.'')
      | Inr decoded \<Rightarrow>
          if includes_str decoded '':'' \<and> \<not> prefix ''http'' decoded then
            (case split CHR '':'' decoded of
               platform # type # p # ps \<Rightarrow>
                 (case reconstructMusicUrl platform type (join '':'' (p # ps)) of
                    None \<Rightarrow> Respond (Error_page 400 ''Unsupported music platform.'')
                  | Some musicUrl \<Rightarrow> Music_url (Some musicUrl))
             | _ \<Rightarrow> Music_url None)
          else Music_url None)"

text \<open>
  The value of \<open>musicUrl\<close> after the decoding step; it is still \<open>null\<close> when the step
  has answered with an error page.
\<close>

definition decoded_url :: "decoded \<Rightarrow> js_value option" where
  "decoded_url d = (case d of Respond r \<Rightarrow> None | Music_url u \<Rightarrow> u)"

text \<open>
  The two renderers (\<^verbatim>\<open>src/renderers/bot_renderer.js\<close> and the client renderer in
  \<^verbatim>\<open>src/unnamed/part_006\<close>). Their HTML templates are not embedded; they are
  parameters: what the body of the renderer makes of \<open>musicUrl\<close>, the metadata and the
  configuration, the HTML text or an exception (a metadata field of the wrong shape makes
  \<open>title.substring\<close> throw). \<open>getServerSideRenderedPage\<close> runs its body in a \<open>try\<close> and
  answers its own error page with status 500 from the \<open>catch\<close>;
  \<open>getClientSideLoadingPage\<close> has no \<open>try\<close>.
\<close>

record templates =
  landing_page_html :: "js_value \<Rightarrow> json \<Rightarrow> config \<Rightarrow> js_error + string"
  loading_page_html :: "js_value \<Rightarrow> json \<Rightarrow> config \<Rightarrow> js_error + string"

definition getServerSideRenderedPage ::
  "templates \<Rightarrow> js_value \<Rightarrow> json \<Rightarrow> config \<Rightarrow> response"
where
  "getServerSideRenderedPage tp musicUrl metadata config =
     (case landing_page_html tp musicUrl metadata config of
        Inr html \<Rightarrow> Html_page html
      | Inl e \<Rightarrow> Error_page 500 ''Unable to load song. Please try again later.'')"

definition getClientSideLoadingPage ::
  "templates \<Rightarrow> js_value \<Rightarrow> json \<Rightarrow> config \<Rightarrow> js_error + response"
where
  "getClientSideLoadingPage tp musicUrl metadata config =
     (case loading_page_html tp musicUrl metadata config of
        Inr html \<Rightarrow> Inr (Html_page html)
      | Inl e \<Rightarrow> Inl e)"

text \<open>
  \<open>handleShareLink(pathname, request, config, env)\<close>; of the request only the
  \<open>User-Agent\<close> header is read. An exception of \<open>fetchAndCacheMetadata\<close> or of the
  client renderer leaves the handler as an exception.
\<close>

definition handleShareLink ::
  "templates \<Rightarrow> platform \<Rightarrow> string \<Rightarrow> string option \<Rightarrow> config \<Rightarrow>
   (cached_metadata, 's) kv_namespace option \<Rightarrow>
   int \<Rightarrow> int \<Rightarrow> 's \<Rightarrow> (js_error + response) \<times> string list \<times> 's"
where
  "handleShareLink tp pf pathname user_agent_header config SONG_CACHE t_read t_write s =
     (let pathAfterS = drop 3 pathname in
      case decode_share_link pathAfterS of
        Respond r \<Rightarrow> (Inr r, [], s)
      | Music_url None \<Rightarrow> (Inr (Error_page 400 ''Invalid share link.''), [], s)
      | Music_url (Some musicUrl) \<Rightarrow>
          (case fetchAndCacheMetadata pf musicUrl pathAfterS config SONG_CACHE t_read t_write s of
             (Inl e, fetched, s') \<Rightarrow> (Inl e, fetched, s')
           | (Inr metadata, fetched, s') \<Rightarrow>
               if \<not> truthy metadata then
                 (Inr (Error_page 404 ''Song not found. Please try again.''), fetched, s')
               else
                 (let userAgent = (case user_agent_header of Some (c # cs) \<Rightarrow> c # cs | _ \<Rightarrow> []) in
                  if isSocialMediaBot (Some userAgent)
                  then (Inr (getServerSideRenderedPage tp musicUrl metadata config), fetched, s')
                  else (getClientSideLoadingPage tp musicUrl metadata config, fetched, s'))))"

section \<open>Properties of the rate limiter\<close>

lemma tokensToAdd_div: "tokensToAdd now st = (now - lastRefill st) div 1000"
proof -
  have "\<lfloor>real_of_int (now - lastRefill st) / real_of_int 1000\<rfloor> = (now - lastRefill st) div 1000"
    by (rule floor_divide_of_int_eq)
  then show ?thesis by (simp add: tokensToAdd_def REFILL_RATE_def)
qed

lemma refill_explicit:
  "refill now st =
     (if (now - lastRefill st) div 1000 > 0
      then st\<lparr>tokens := min 60 (tokens st + (now - lastRefill st) div 1000), lastRefill := now\<rparr>
      else st)"
  by (simp add: refill_def tokensToAdd_div MAX_TOKENS_def)

text \<open>A normal return of the \<open>try\<close> block needs both store calls to have returned.\<close>

lemma checkLimit_try_returns:
  assumes "checkLimit_try ns key now s = (Inr res, s')"
  shows "\<exists>x s1. kv_get ns key s = (Inr x, s1) \<and> (\<exists>v. kv_put ns key v 120 s1 = (Inr (), s'))"
  using assms
  unfolding checkLimit_try_def WINDOW_SIZE_def Let_def
  by (auto split: prod.splits sum.splits option.splits stored_text.splits if_splits)

text \<open>On the in-memory namespace, with no state or a parseable state under the key.\<close>

lemma checkLimit_memory:
  assumes "clientIp \<noteq> []"
    and "m (''ratelimit:'' @ clientIp) = None \<and> st0 = \<lparr>tokens = 60, lastRefill = now, requestCount = 0\<rparr>
         \<or> (\<exists>ttl. m (''ratelimit:'' @ clientIp) = Some (State_text st0, ttl))"
  shows "checkLimit clientIp (Some memory_kv) now m =
     (let st = refill now st0 in
      if tokens st \<ge> 1
      then (\<lparr>allowed = True, retryAfter = None\<rparr>,
            m(''ratelimit:'' @ clientIp \<mapsto>
                (State_text (st\<lparr>tokens := tokens st - 1, requestCount := requestCount st + 1\<rparr>), 120)))
      else (\<lparr>allowed = False, retryAfter = Some 1\<rparr>,
            m(''ratelimit:'' @ clientIp \<mapsto> (State_text st, 120))))"
  using assms
  by (auto simp: checkLimit_def checkLimit_try_def memory_kv_def Let_def MAX_TOKENS_def
      WINDOW_SIZE_def REFILL_RATE_def JSON_stringify_def)

lemma checkLimit_step_bounds:
  assumes "clientIp \<noteq> []"
    and "m (''ratelimit:'' @ clientIp) = Some (State_text st0, ttl0)"
    and "0 \<le> tokens st0" and "tokens st0 \<le> 60"
  shows "\<exists>st. snd (checkLimit clientIp (Some memory_kv) now m) (''ratelimit:'' @ clientIp)
            = Some (State_text st, 120) \<and> 0 \<le> tokens st \<and> tokens st \<le> 60"
proof -
  have "checkLimit clientIp (Some memory_kv) now m =
     (let st = refill now st0 in
      if tokens st \<ge> 1
      then (\<lparr>allowed = True, retryAfter = None\<rparr>,
            m(''ratelimit:'' @ clientIp \<mapsto>
                (State_text (st\<lparr>tokens := tokens st - 1, requestCount := requestCount st + 1\<rparr>), 120)))
      else (\<lparr>allowed = False, retryAfter = Some 1\<rparr>,
            m(''ratelimit:'' @ clientIp \<mapsto> (State_text st, 120))))"
    using assms(1,2) by (intro checkLimit_memory) auto
  moreover have "0 \<le> tokens (refill now st0) \<and> tokens (refill now st0) \<le> 60"
    using assms(3,4) by (auto simp: refill_explicit)
  ultimately show ?thesis by (auto simp: Let_def)
qed

text \<open>
  C1 (fail-open). For every client IP, every time and every store: when the store's \<open>get\<close>
  throws, or its \<open>put\<close> after that \<open>get\<close> (under the client's key, with the 120 second
  expiry) throws whatever is written, \<open>checkLimit\<close> returns \<open>{allowed: true}\<close>. The
  result type of \<open>checkLimit\<close> holds no exception: every throw of the body ends in the
  \<open>catch\<close>.
\<close>

theorem checkLimit_fail_open:
  assumes "(\<exists>e. fst (kv_get ns (''ratelimit:'' @ clientIp) s) = Inl e)
           \<or> (\<forall>v. \<exists>e. fst (kv_put ns (''ratelimit:'' @ clientIp) v 120
                          (snd (kv_get ns (''ratelimit:'' @ clientIp) s))) = Inl e)"
  shows "fst (checkLimit clientIp (Some ns) now s) = \<lparr>allowed = True, retryAfter = None\<rparr>"
proof (cases "clientIp = []")
  case True
  then show ?thesis by (simp add: checkLimit_def)
next
  case False
  define key where "key = ''ratelimit:'' @ clientIp"
  obtain r s' where run: "checkLimit_try ns key now s = (r, s')"
    by (cases "checkLimit_try ns key now s")
  show ?thesis
  proof (cases r)
    case (Inl e)
    with run False show ?thesis by (simp add: checkLimit_def key_def)
  next
    case (Inr res)
    with run checkLimit_try_returns [of ns key now s res s']
    obtain x s1 v where g: "kv_get ns key s = (Inr x, s1)" and p: "kv_put ns key v 120 s1 = (Inr (), s')"
      by blast
    from assms g p have False
      unfolding key_def [symmetric] by (metis fst_conv snd_conv sum.distinct(1))
    then show ?thesis ..
  qed
qed

theorem checkLimit_fail_open_witness:
  "fst (checkLimit ''1.2.3.4''
         (Some \<lparr>kv_get = (\<lambda>k s. (Inl Store_failure, s)), kv_put = (\<lambda>k v ttl s. (Inr (), s))\<rparr>)
         1000 ()) = \<lparr>allowed = True, retryAfter = None\<rparr>
   \<and> fst (checkLimit ''1.2.3.4''
         (Some \<lparr>kv_get = (\<lambda>k s. (Inr (Some (State_text \<lparr>tokens = 0, lastRefill = 1000, requestCount = 60\<rparr>)), s)),
                kv_put = (\<lambda>k v ttl s. (Inl Store_failure, s))\<rparr>)
         1000 ()) = \<lparr>allowed = True, retryAfter = None\<rparr>"
proof
  let ?ns = "\<lparr>kv_get = (\<lambda>k (s::unit). (Inl Store_failure :: js_error + stored_text option, s)),
              kv_put = (\<lambda>k (v::stored_text) (ttl::nat) (s::unit). (Inr () :: js_error + unit, s))\<rparr>"
  have "(\<exists>e. fst (kv_get ?ns (''ratelimit:'' @ ''1.2.3.4'') ()) = Inl e)
        \<or> (\<forall>v. \<exists>e. fst (kv_put ?ns (''ratelimit:'' @ ''1.2.3.4'') v 120
                       (snd (kv_get ?ns (''ratelimit:'' @ ''1.2.3.4'') ()))) = Inl e)"
    by simp
  from checkLimit_fail_open [OF this]
  show "fst (checkLimit ''1.2.3.4'' (Some ?ns) 1000 ()) = \<lparr>allowed = True, retryAfter = None\<rparr>" .
next
  let ?ns = "\<lparr>kv_get = (\<lambda>k (s::unit). (Inr (Some (State_text \<lparr>tokens = 0, lastRefill = 1000, requestCount = 60\<rparr>))
                          :: js_error + stored_text option, s)),
              kv_put = (\<lambda>k (v::stored_text) (ttl::nat) (s::unit). (Inl Store_failure :: js_error + unit, s))\<rparr>"
  have "(\<exists>e. fst (kv_get ?ns (''ratelimit:'' @ ''1.2.3.4'') ()) = Inl e)
        \<or> (\<forall>v. \<exists>e. fst (kv_put ?ns (''ratelimit:'' @ ''1.2.3.4'') v 120
                       (snd (kv_get ?ns (''ratelimit:'' @ ''1.2.3.4'') ()))) = Inl e)"
    by simp
  from checkLimit_fail_open [OF this]
  show "fst (checkLimit ''1.2.3.4'' (Some ?ns) 1000 ()) = \<lparr>allowed = True, retryAfter = None\<rparr>" .
qed

text \<open>
  C2 (the algorithm on the non-error path). For a non-empty client IP and a store that
  does not throw, holding no state or a parseable state for the key: the state read is
  the stored one, or \<open>tokens = 60\<close>, \<open>lastRefill = now\<close> when none exists; it is refilled;
  with at least one token the call takes exactly one token, adds one to \<open>requestCount\<close>,
  writes the state with expiry 120 and returns \<open>{allowed: true}\<close>; otherwise it writes the
  refilled state unchanged with expiry 120 and returns \<open>{allowed: false, retryAfter: 1}\<close>.
\<close>

theorem checkLimit_algorithm:
  assumes "clientIp \<noteq> []"
    and "m (''ratelimit:'' @ clientIp) = None \<and> st0 = \<lparr>tokens = 60, lastRefill = now, requestCount = 0\<rparr>
         \<or> (\<exists>ttl. m (''ratelimit:'' @ clientIp) = Some (State_text st0, ttl))"
    and "added = (now - lastRefill st0) div 1000"
    and "st = (if added > 0 then st0\<lparr>tokens := min 60 (tokens st0 + added), lastRefill := now\<rparr> else st0)"
  shows "checkLimit clientIp (Some memory_kv) now m =
     (if tokens st \<ge> 1
      then (\<lparr>allowed = True, retryAfter = None\<rparr>,
            m(''ratelimit:'' @ clientIp \<mapsto>
                (State_text (st\<lparr>tokens := tokens st - 1, requestCount := requestCount st + 1\<rparr>), 120)))
      else (\<lparr>allowed = False, retryAfter = Some 1\<rparr>,
            m(''ratelimit:'' @ clientIp \<mapsto> (State_text st, 120))))"
proof -
  have "st = refill now st0"
    using assms(3,4) by (simp add: refill_explicit)
  moreover have "checkLimit clientIp (Some memory_kv) now m =
     (let st = refill now st0 in
      if tokens st \<ge> 1
      then (\<lparr>allowed = True, retryAfter = None\<rparr>,
            m(''ratelimit:'' @ clientIp \<mapsto>
                (State_text (st\<lparr>tokens := tokens st - 1, requestCount := requestCount st + 1\<rparr>), 120)))
      else (\<lparr>allowed = False, retryAfter = Some 1\<rparr>,
            m(''ratelimit:'' @ clientIp \<mapsto> (State_text st, 120))))"
    using assms(1,2) by (intro checkLimit_memory) auto
  ultimately show ?thesis by (simp add: Let_def)
qed

text \<open>
  The two scenarios of the specification: a first request of a fresh IP leaves 59 tokens;
  a request on an empty bucket with no second elapsed is rejected with \<open>retryAfter = 1\<close>
  and does not count.
\<close>

theorem checkLimit_algorithm_witness:
  "checkLimit ''1.2.3.4'' (Some memory_kv) 1000 Map.empty =
     (\<lparr>allowed = True, retryAfter = None\<rparr>,
      [''ratelimit:1.2.3.4'' \<mapsto> (State_text \<lparr>tokens = 59, lastRefill = 1000, requestCount = 1\<rparr>, 120)])
   \<and> checkLimit ''1.2.3.4'' (Some memory_kv) 1500
        [''ratelimit:1.2.3.4'' \<mapsto> (State_text \<lparr>tokens = 0, lastRefill = 1000, requestCount = 60\<rparr>, 120)] =
     (\<lparr>allowed = False, retryAfter = Some 1\<rparr>,
      [''ratelimit:1.2.3.4'' \<mapsto> (State_text \<lparr>tokens = 0, lastRefill = 1000, requestCount = 60\<rparr>, 120)])"
proof
  show "checkLimit ''1.2.3.4'' (Some memory_kv) 1000 Map.empty =
     (\<lparr>allowed = True, retryAfter = None\<rparr>,
      [''ratelimit:1.2.3.4'' \<mapsto> (State_text \<lparr>tokens = 59, lastRefill = 1000, requestCount = 1\<rparr>, 120)])"
    using checkLimit_algorithm [of "''1.2.3.4''" Map.empty "\<lparr>tokens = 60, lastRefill = 1000, requestCount = 0\<rparr>" 1000 0
        "\<lparr>tokens = 60, lastRefill = 1000, requestCount = 0\<rparr>"]
    by simp
  show "checkLimit ''1.2.3.4'' (Some memory_kv) 1500
        [''ratelimit:1.2.3.4'' \<mapsto> (State_text \<lparr>tokens = 0, lastRefill = 1000, requestCount = 60\<rparr>, 120)] =
     (\<lparr>allowed = False, retryAfter = Some 1\<rparr>,
      [''ratelimit:1.2.3.4'' \<mapsto> (State_text \<lparr>tokens = 0, lastRefill = 1000, requestCount = 60\<rparr>, 120)])"
    using checkLimit_algorithm [of "''1.2.3.4''"
        "[''ratelimit:1.2.3.4'' \<mapsto> (State_text \<lparr>tokens = 0, lastRefill = 1000, requestCount = 60\<rparr>, 120)]"
        "\<lparr>tokens = 0, lastRefill = 1000, requestCount = 60\<rparr>" 1500 0
        "\<lparr>tokens = 0, lastRefill = 1000, requestCount = 60\<rparr>"]
    by simp
qed

text \<open>
  Sixty requests of a fresh IP in the same instant are admitted and empty the bucket, so
  the 61st is the rejected request of the witness above.
\<close>

lemma burst_of_sixty:
  "checkLimit_calls ''1.2.3.4'' (replicate 60 1000) Map.empty
     = [''ratelimit:1.2.3.4'' \<mapsto> (State_text \<lparr>tokens = 0, lastRefill = 1000, requestCount = 60\<rparr>, 120)]"
  by (simp add: numeral_eq_Suc checkLimit_def checkLimit_try_def memory_kv_def refill_explicit
      MAX_TOKENS_def WINDOW_SIZE_def REFILL_RATE_def JSON_stringify_def)

text \<open>
  C3 (token bucket bounds). From a stored state with \<open>0 \<le> tokens \<le> MAX_TOKENS\<close>, after
  every prefix of every sequence of \<open>checkLimit\<close> calls a state is stored for the client
  and its \<open>tokens\<close> field lies between 0 and \<open>MAX_TOKENS\<close>. The times of the calls are
  arbitrary; non-decreasing times are a special case.
\<close>

theorem token_bucket_bounds:
  assumes "clientIp \<noteq> []"
    and "m (''ratelimit:'' @ clientIp) = Some (State_text st0, ttl0)"
    and "0 \<le> tokens st0" and "tokens st0 \<le> MAX_TOKENS"
    and "n \<le> length ts"
  shows "\<exists>st ttl. checkLimit_calls clientIp (take n ts) m (''ratelimit:'' @ clientIp)
            = Some (State_text st, ttl) \<and> 0 \<le> tokens st \<and> tokens st \<le> MAX_TOKENS"
  using assms
proof (induction ts arbitrary: n m st0 ttl0)
  case Nil
  then show ?case by simp
next
  case (Cons now ts)
  show ?case
  proof (cases n)
    case 0
    with Cons.prems show ?thesis by simp
  next
    case (Suc k)
    from Cons.prems obtain st where
      "snd (checkLimit clientIp (Some memory_kv) now m) (''ratelimit:'' @ clientIp) = Some (State_text st, 120)"
      "0 \<le> tokens st" "tokens st \<le> MAX_TOKENS"
      using checkLimit_step_bounds [of clientIp m st0 ttl0 now] by (auto simp: MAX_TOKENS_def)
    moreover have "k \<le> length ts" using Cons.prems Suc by simp
    ultimately have "\<exists>st ttl. checkLimit_calls clientIp (take k ts)
          (snd (checkLimit clientIp (Some memory_kv) now m)) (''ratelimit:'' @ clientIp)
            = Some (State_text st, ttl) \<and> 0 \<le> tokens st \<and> tokens st \<le> MAX_TOKENS"
      using Cons.IH Cons.prems(1) by blast
    then show ?thesis using Suc by simp
  qed
qed

theorem token_bucket_bounds_witness:
  "\<exists>st ttl. checkLimit_calls ''1.2.3.4'' (take 3 [1000, 1200, 90000])
       [''ratelimit:1.2.3.4'' \<mapsto> (State_text \<lparr>tokens = 1, lastRefill = 1000, requestCount = 59\<rparr>, 120)]
       (''ratelimit:'' @ ''1.2.3.4'') = Some (State_text st, ttl)
     \<and> 0 \<le> tokens st \<and> tokens st \<le> MAX_TOKENS"
proof -
  let ?st = "\<lparr>tokens = 1, lastRefill = 1000, requestCount = 59\<rparr>"
  let ?m = "[''ratelimit:1.2.3.4'' \<mapsto> (State_text ?st, 120 :: nat)]"
  have h1: "''1.2.3.4'' \<noteq> []" by simp
  have h2: "?m (''ratelimit:'' @ ''1.2.3.4'') = Some (State_text ?st, 120)" by simp
  have h3: "0 \<le> tokens ?st" by simp
  have h4: "tokens ?st \<le> MAX_TOKENS" by (simp add: MAX_TOKENS_def)
  have h5: "3 \<le> length [1000, 1200, 90000 :: int]" by simp
  note t = token_bucket_bounds [of "''1.2.3.4''" ?m ?st 120 3 "[1000, 1200, 90000]"]
  from t [OF h1 h2 h3 h4 h5] show ?thesis .
qed

text \<open>
  C7 as stated fails: the call that refills also consumes. A fresh IP calls at time 0
  (59 tokens are stored) and again 5 seconds later: 59 tokens are stored again, not
  \<open>min(MAX_TOKENS, 59 + 5)\<close>.
\<close>

theorem refill_monotonicity_counterexample:
  "stored_tokens (checkLimit_calls ''1.2.3.4'' [0] Map.empty) ''1.2.3.4'' = Some 59
   \<and> stored_tokens (checkLimit_calls ''1.2.3.4'' [0, 5000] Map.empty) ''1.2.3.4'' = Some 59
   \<and> min MAX_TOKENS (59 + \<lfloor>(5000 - 0) / (1000 :: real)\<rfloor>) \<noteq> 59"
  by (simp add: stored_tokens_def checkLimit_def checkLimit_try_def memory_kv_def refill_explicit
      MAX_TOKENS_def WINDOW_SIZE_def REFILL_RATE_def JSON_stringify_def)

text \<open>
  C7 (amended). For a stored state with \<open>tokens \<le> MAX_TOKENS\<close> whose \<open>lastRefill\<close> is not
  in the future, the refill of a call at \<open>now\<close> brings the count to
  \<open>min(MAX_TOKENS, tokens + floor((now - lastRefill) / 1000))\<close>; the count the call stores
  is one less than that when the call is admitted and equal to it when the call is
  rejected; \<open>lastRefill\<close> becomes \<open>now\<close> exactly when at least one token was added. The
  elapsed time counts from the stored \<open>lastRefill\<close>.
\<close>

theorem refill_then_consume:
  assumes "clientIp \<noteq> []"
    and "m (''ratelimit:'' @ clientIp) = Some (State_text st, ttl)"
    and "tokens st \<le> MAX_TOKENS"
    and "lastRefill st \<le> now"
  shows "\<exists>st'. snd (checkLimit clientIp (Some memory_kv) now m) (''ratelimit:'' @ clientIp)
              = Some (State_text st', 120)
           \<and> tokens (refill now st) = min MAX_TOKENS (tokens st + (now - lastRefill st) div 1000)
           \<and> tokens st' = (if tokens (refill now st) \<ge> 1 then tokens (refill now st) - 1
                            else tokens (refill now st))
           \<and> lastRefill st' = (if (now - lastRefill st) div 1000 \<ge> 1 then now else lastRefill st)"
proof -
  have run: "checkLimit clientIp (Some memory_kv) now m =
     (let st = refill now st in
      if tokens st \<ge> 1
      then (\<lparr>allowed = True, retryAfter = None\<rparr>,
            m(''ratelimit:'' @ clientIp \<mapsto>
                (State_text (st\<lparr>tokens := tokens st - 1, requestCount := requestCount st + 1\<rparr>), 120)))
      else (\<lparr>allowed = False, retryAfter = Some 1\<rparr>,
            m(''ratelimit:'' @ clientIp \<mapsto> (State_text st, 120))))"
    using assms(1,2) by (intro checkLimit_memory) auto
  have nonneg: "0 \<le> (now - lastRefill st) div 1000"
    using assms(4) by simp
  have tok: "tokens (refill now st) = min MAX_TOKENS (tokens st + (now - lastRefill st) div 1000)"
    using assms(3) nonneg by (auto simp: refill_explicit MAX_TOKENS_def)
  have last: "lastRefill (refill now st) = (if (now - lastRefill st) div 1000 \<ge> 1 then now else lastRefill st)"
    by (auto simp: refill_explicit)
  show ?thesis
    unfolding run Let_def using tok last by auto
qed

theorem refill_then_consume_witness:
  "\<exists>st'. snd (checkLimit ''1.2.3.4'' (Some memory_kv) 7500
             [''ratelimit:1.2.3.4'' \<mapsto> (State_text \<lparr>tokens = 10, lastRefill = 2000, requestCount = 3\<rparr>, 120)])
             ''ratelimit:1.2.3.4'' = Some (State_text st', 120)
         \<and> tokens (refill 7500 \<lparr>tokens = 10, lastRefill = 2000, requestCount = 3\<rparr>) = 15
         \<and> tokens st' = 14 \<and> lastRefill st' = 7500"
proof -
  let ?st = "\<lparr>tokens = 10, lastRefill = 2000, requestCount = 3\<rparr>"
  let ?m = "[''ratelimit:1.2.3.4'' \<mapsto> (State_text ?st, 120 :: nat)]"
  have h1: "''1.2.3.4'' \<noteq> []" by simp
  have h2: "?m (''ratelimit:'' @ ''1.2.3.4'') = Some (State_text ?st, 120)" by simp
  have h3: "tokens ?st \<le> MAX_TOKENS" by (simp add: MAX_TOKENS_def)
  have h4: "lastRefill ?st \<le> 7500" by simp
  have r: "tokens (refill 7500 ?st) = 15" "(7500 - lastRefill ?st) div 1000 = 5"
    by (simp_all add: refill_explicit)
  note t = refill_then_consume [of "''1.2.3.4''" ?m ?st 120 7500]
  from t [OF h1 h2 h3 h4] show ?thesis
    unfolding r by (simp add: MAX_TOKENS_def)
qed

lemma split_first: "\<exists>ps. split sep s = takeWhile (\<lambda>c. c \<noteq> sep) s # ps"
  by (induction s) auto

lemma trim_white: "\<forall>c\<in>set s. is_white_space c \<Longrightarrow> trim s = []"
  unfolding trim_def by (auto dest: set_dropWhileD)

text \<open>
  C10 (rate-limit bypass). A request with no \<open>CF-Connecting-IP\<close> header and an
  \<open>X-Forwarded-For\<close> value whose first comma-separated entry is empty or white space gets
  the empty string from \<open>getClientIp\<close>, and \<open>checkLimit\<close> on it returns \<open>{allowed: true}\<close>
  and leaves the store as it was, for every binding and every store: the store is neither
  read nor written, so such a request is never limited.
\<close>

theorem empty_forwarded_entry_bypasses_limit:
  assumes "hdrs ''CF-Connecting-IP'' = None"
    and "hdrs ''X-Forwarded-For'' = Some v"
    and "v \<noteq> []"
    and "\<forall>c\<in>set (takeWhile (\<lambda>c. c \<noteq> CHR '','') v). is_white_space c"
  shows "getClientIp hdrs = []
         \<and> checkLimit (getClientIp hdrs) kv now s = (\<lparr>allowed = True, retryAfter = None\<rparr>, s)"
proof -
  obtain c cs where v: "v = c # cs" using assms(3) by (cases v) auto
  obtain ps where sp: "split CHR '','' (c # cs) = takeWhile (\<lambda>c. c \<noteq> CHR '','') (c # cs) # ps"
    using split_first by blast
  have ip: "getClientIp hdrs = []"
    using assms(1,2,4) trim_white [of "takeWhile (\<lambda>c. c \<noteq> CHR '','') v"]
    unfolding getClientIp_def v by (simp only: sp option.case list.case)
  show ?thesis
    unfolding ip by (simp add: checkLimit_def split: option.splits)
qed

theorem empty_forwarded_entry_bypasses_limit_witness:
  "getClientIp [''X-Forwarded-For'' \<mapsto> '',1.2.3.4''] = []
   \<and> checkLimit (getClientIp [''X-Forwarded-For'' \<mapsto> '',1.2.3.4'']) (Some memory_kv) 1000
        [''ratelimit:'' \<mapsto> (State_text \<lparr>tokens = 0, lastRefill = 1000, requestCount = 60\<rparr>, 120)]
       = (\<lparr>allowed = True, retryAfter = None\<rparr>,
          [''ratelimit:'' \<mapsto> (State_text \<lparr>tokens = 0, lastRefill = 1000, requestCount = 60\<rparr>, 120)])"
proof -
  let ?hdrs = "[''X-Forwarded-For'' \<mapsto> '',1.2.3.4'']"
  have h1: "?hdrs ''CF-Connecting-IP'' = None" by simp
  have h2: "?hdrs ''X-Forwarded-For'' = Some '',1.2.3.4''" by simp
  have h3: "'',1.2.3.4'' \<noteq> []" by simp
  have h4: "\<forall>c\<in>set (takeWhile (\<lambda>c. c \<noteq> CHR '','') '',1.2.3.4''). is_white_space c" by simp
  note t = empty_forwarded_entry_bypasses_limit [of ?hdrs "'',1.2.3.4''"]
  from t [OF h1 h2 h3 h4] show ?thesis .
qed

section \<open>Properties of the bot detector\<close>

text \<open>
  Matching the lower-case forms is matching up to letter case: against an ASCII
  character, two characters have the same lower-case form exactly when they are equal
  ignoring case.
\<close>

lemma lower_char_code:
  "(of_char (lower_char c) :: nat) =
     (if (65 \<le> (of_char c :: nat) \<and> (of_char c :: nat) \<le> 90)
         \<or> (192 \<le> (of_char c :: nat) \<and> (of_char c :: nat) \<le> 222 \<and> (of_char c :: nat) \<noteq> 215)
      then of_char c + 32 else of_char c)"
  by (auto simp: lower_char_def Let_def)

lemma sublist_map_iff:
  "sublist (map f p) (map f s) \<longleftrightarrow> (\<exists>pre mid post. s = pre @ mid @ post \<and> map f mid = map f p)"
proof
  assume "sublist (map f p) (map f s)"
  then obtain ps ss where "map f s = ps @ (map f p @ ss)" by (auto simp: sublist_def)
  then have "\<exists>us vs. s = us @ vs \<and> ps = map f us \<and> map f p @ ss = map f vs"
    by (simp only: map_eq_append_conv)
  then obtain pre r where r: "s = pre @ r" and m: "map f r = map f p @ ss" by metis
  from m have "\<exists>us vs. r = us @ vs \<and> map f p = map f us \<and> ss = map f vs"
    by (simp only: map_eq_append_conv)
  then obtain mid post where "r = mid @ post" "map f mid = map f p" by metis
  with r show "\<exists>pre mid post. s = pre @ mid @ post \<and> map f mid = map f p" by blast
next
  assume "\<exists>pre mid post. s = pre @ mid @ post \<and> map f mid = map f p"
  then obtain pre mid post where "s = pre @ mid @ post" "map f mid = map f p" by blast
  then have "map f s = map f pre @ map f p @ map f post" by simp
  then show "sublist (map f p) (map f s)" unfolding sublist_def by blast
qed

lemma botPatterns_ascii: "\<forall>pattern\<in>set botPatterns. \<forall>p\<in>set pattern. (of_char p :: nat) < 128"
  by (simp add: botPatterns_def)


lemma fold_case_arith:
  fixes m n :: nat
  assumes "n < 128"
  shows "(if (65 \<le> m \<and> m \<le> 90) \<or> (192 \<le> m \<and> m \<le> 222 \<and> m \<noteq> 215) then m + 32 else m)
         = (if (65 \<le> n \<and> n \<le> 90) \<or> (192 \<le> n \<and> n \<le> 222 \<and> n \<noteq> 215) then n + 32 else n)
     \<longleftrightarrow> m = n \<or> (65 \<le> m \<and> m \<le> 90 \<and> n = m + 32) \<or> (65 \<le> n \<and> n \<le> 90 \<and> m = n + 32)"
  using assms by (simp split: if_splits) linarith

lemma lower_char_eq_ascii:
  assumes "(of_char p :: nat) < 128"
  shows "lower_char c = lower_char p \<longleftrightarrow> equal_ignoring_case c p"
proof -
  have "lower_char c = lower_char p \<longleftrightarrow> (of_char (lower_char c) :: nat) = of_char (lower_char p)"
    by simp
  also have "\<dots> \<longleftrightarrow> (of_char c :: nat) = of_char p
       \<or> (65 \<le> (of_char c :: nat) \<and> (of_char c :: nat) \<le> 90 \<and> (of_char p :: nat) = of_char c + 32)
       \<or> (65 \<le> (of_char p :: nat) \<and> (of_char p :: nat) \<le> 90 \<and> (of_char c :: nat) = of_char p + 32)"
    unfolding lower_char_code by (rule fold_case_arith [OF assms])
  also have "\<dots> \<longleftrightarrow> equal_ignoring_case c p"
    by (simp add: equal_ignoring_case_def)
  finally show ?thesis .
qed

lemma map_lower_eq:
  assumes "\<forall>p\<in>set pattern. (of_char p :: nat) < 128"
  shows "map lower_char mid = map lower_char pattern \<longleftrightarrow> list_all2 equal_ignoring_case mid pattern"
  using assms
proof (induction mid arbitrary: pattern)
  case Nil
  then show ?case by auto
next
  case step: (Cons c cs)
  show ?case
  proof (cases pattern)
    case Nil
    then show ?thesis by simp
  next
    case (Cons p ps)
    with step.prems have "(of_char p :: nat) < 128" "\<forall>q\<in>set ps. (of_char q :: nat) < 128" by auto
    then show ?thesis
      using step.IH [of ps] lower_char_eq_ascii [of p c] Cons by simp
  qed
qed


text \<open>
  C9 (bot classification). \<open>isSocialMediaBot\<close> is a function of the identity string alone;
  it holds exactly when the string is present, not empty, and contains a run of
  characters that equals one of the twelve signatures ignoring letter case. The absent
  and the empty string are not bots; \<open>facebookexternalhit/1.1\<close> is a bot and
  \<open>Mozilla/5.0 (iPhone...)\<close> is not; a signature in capitals or in mixed case is found, a
  signature broken by a space is not.
\<close>

theorem isSocialMediaBot_classification:
  "(isSocialMediaBot userAgent \<longleftrightarrow>
      (\<exists>ua. userAgent = Some ua \<and> ua \<noteq> [] \<and>
         (\<exists>pattern pre mid post. pattern \<in> set botPatterns \<and> ua = pre @ mid @ post
             \<and> list_all2 equal_ignoring_case mid pattern)))
   \<and> length botPatterns = 12
   \<and> \<not> isSocialMediaBot None
   \<and> \<not> isSocialMediaBot (Some [])
   \<and> isSocialMediaBot (Some ''facebookexternalhit/1.1'')
   \<and> \<not> isSocialMediaBot (Some ''Mozilla/5.0 (iPhone...)'')
   \<and> isSocialMediaBot (Some ''WHATSAPP/2.23'')
   \<and> isSocialMediaBot (Some ''Mozilla/5.0 (compatible; GoogleBOT/2.1)'')
   \<and> \<not> isSocialMediaBot (Some ''Whats App'')"
proof (intro conjI)
  show "isSocialMediaBot userAgent \<longleftrightarrow>
      (\<exists>ua. userAgent = Some ua \<and> ua \<noteq> [] \<and>
         (\<exists>pattern pre mid post. pattern \<in> set botPatterns \<and> ua = pre @ mid @ post
             \<and> list_all2 equal_ignoring_case mid pattern))"
  proof (cases userAgent)
    case None
    then show ?thesis by (simp add: isSocialMediaBot_def)
  next
    case (Some ua)
    show ?thesis
    proof (cases ua)
      case Nil
      with Some show ?thesis by (simp add: isSocialMediaBot_def)
    next
      case (Cons c cs)
      have "isSocialMediaBot (Some (c # cs)) \<longleftrightarrow>
          (\<exists>pattern\<in>set botPatterns. sublist (toLowerCase pattern) (toLowerCase (c # cs)))"
        by (simp add: isSocialMediaBot_def includes_str_def list_ex_iff)
      also have "\<dots> \<longleftrightarrow> (\<exists>pattern\<in>set botPatterns. \<exists>pre mid post. c # cs = pre @ mid @ post
             \<and> map lower_char mid = map lower_char pattern)"
        unfolding toLowerCase_def sublist_map_iff ..
      also have "\<dots> \<longleftrightarrow> (\<exists>pattern\<in>set botPatterns. \<exists>pre mid post. c # cs = pre @ mid @ post
             \<and> list_all2 equal_ignoring_case mid pattern)"
        using botPatterns_ascii map_lower_eq by (metis (no_types, lifting))
      finally show ?thesis using Some Cons by auto
    qed
  qed
  show "length botPatterns = 12" by (simp add: botPatterns_def)
  show "\<not> isSocialMediaBot None" by (simp add: isSocialMediaBot_def)
  show "\<not> isSocialMediaBot (Some [])" by (simp add: isSocialMediaBot_def)
  show "isSocialMediaBot (Some ''facebookexternalhit/1.1'')" by code_simp
  show "\<not> isSocialMediaBot (Some ''Mozilla/5.0 (iPhone...)'')" by code_simp
  show "isSocialMediaBot (Some ''WHATSAPP/2.23'')" by code_simp
  show "isSocialMediaBot (Some ''Mozilla/5.0 (compatible; GoogleBOT/2.1)'')" by code_simp
  show "\<not> isSocialMediaBot (Some ''Whats App'')" by code_simp
qed

text \<open>The classification, used on a signature written in mixed case.\<close>

theorem isSocialMediaBot_classification_witness:
  "isSocialMediaBot (Some (''Mozilla/5.0 '' @ ''tWiTtErBoT'' @ ''/1.0''))"
proof -
  have p: "''Twitterbot'' \<in> set botPatterns" by (simp add: botPatterns_def)
  have m: "list_all2 equal_ignoring_case ''tWiTtErBoT'' ''Twitterbot''"
    by (simp add: equal_ignoring_case_def)
  have "\<exists>ua. Some (''Mozilla/5.0 '' @ ''tWiTtErBoT'' @ ''/1.0'') = Some ua \<and> ua \<noteq> [] \<and>
         (\<exists>pattern pre mid post. pattern \<in> set botPatterns \<and> ua = pre @ mid @ post
             \<and> list_all2 equal_ignoring_case mid pattern)"
    using p m by (intro exI [of _ "''Mozilla/5.0 '' @ ''tWiTtErBoT'' @ ''/1.0''"] conjI
        exI [of _ "''Twitterbot''"] exI [of _ "''Mozilla/5.0 ''"] exI [of _ "''tWiTtErBoT''"]
        exI [of _ "''/1.0''"]) simp_all
  with isSocialMediaBot_classification [of "Some (''Mozilla/5.0 '' @ ''tWiTtErBoT'' @ ''/1.0'')"]
  show ?thesis by blast
qed

section \<open>Properties of the metadata cache\<close>

lemma fetch_hit:
  assumes "kv_get ns (''metadata:'' @ encodedPath) s = (Inr (Some cached), s1)"
    and "timestamp cached \<noteq> 0" and "t_read - timestamp cached < 86400000"
  shows "fetchAndCacheMetadata pf musicUrl encodedPath cfg (Some ns) t_read t_write s
         = (Inr (data cached), [], s1)"
  using assms by (simp add: fetchAndCacheMetadata_def)

lemma fetch_miss_requests:
  assumes "SONG_CACHE = None
           \<or> (\<exists>ns s1. SONG_CACHE = Some ns \<and>
                 (kv_get ns (''metadata:'' @ encodedPath) s = (Inr None, s1)
                  \<or> (\<exists>cached. kv_get ns (''metadata:'' @ encodedPath) s = (Inr (Some cached), s1)
                        \<and> \<not> (timestamp cached \<noteq> 0 \<and> t_read - timestamp cached < 86400000))))"
  shows "\<exists>r. fst (fetchAndCacheMetadata pf musicUrl encodedPath cfg SONG_CACHE t_read t_write s) = Inr r
       \<and> fst (snd (fetchAndCacheMetadata pf musicUrl encodedPath cfg SONG_CACHE t_read t_write s))
         = [unituneApiEndpoint cfg @ ''?url='' @ encodeURIComponent pf (ToString musicUrl)]"
  using assms
  by (auto simp: fetchAndCacheMetadata_def Let_def
      split: fetch_reply.splits sum.splits prod.splits option.splits)

text \<open>
  The reader also tests \<open>cached.timestamp\<close> for truthiness, so an entry with timestamp 0 is
  a miss at every time. This decides nothing for a clock that reads a time after the
  first day of 1970: from \<open>86400000\<close> on, an entry with timestamp 0 is stale anyway (lemma
  \<open>cache_freshness_after_first_day\<close> below).
\<close>

lemma zero_timestamp_is_a_miss:
  "(86399999 :: int) - 0 < 86400000
   \<and> fst (snd (fetchAndCacheMetadata
        \<lparr>encodeURIComponent = (\<lambda>u. u), fetch = (\<lambda>u. Response 200 (Inr (Json_string ''fetched'')))\<rparr>
        (Js_string ''https://open.spotify.com/track/123'') ''c3BvdGlmeTp0cmFjazoxMjM=''
        \<lparr>unituneApiEndpoint = ''https://api.unitune.art/v1-alpha.1/links'', debugLogging = False\<rparr>
        (Some memory_kv) (0 + 86399999) (0 + 86400000)
        [''metadata:c3BvdGlmeTp0cmFjazoxMjM='' \<mapsto> (\<lparr>data = Json_string ''cached'', timestamp = 0\<rparr>, 86400)]))
     = [''https://api.unitune.art/v1-alpha.1/links?url=https://open.spotify.com/track/123'']"
  by (simp add: fetchAndCacheMetadata_def memory_kv_def response_ok_def)

lemma cache_freshness_after_first_day:
  assumes "kv_get ns (''metadata:'' @ encodedPath) s = (Inr (Some cached), s1)"
    and "86400000 \<le> t_read"
  shows "fst (snd (fetchAndCacheMetadata pf musicUrl encodedPath cfg (Some ns) t_read t_write s)) = []
            \<longleftrightarrow> t_read - timestamp cached < 86400000"
proof (cases "timestamp cached \<noteq> 0 \<and> t_read - timestamp cached < 86400000")
  case True
  then show ?thesis using fetch_hit [OF assms(1)] by simp
next
  case False
  then have "\<not> t_read - timestamp cached < 86400000" using assms(2) by auto
  moreover have "fst (snd (fetchAndCacheMetadata pf musicUrl encodedPath cfg (Some ns) t_read t_write s)) \<noteq> []"
    using fetch_miss_requests [of "Some ns" encodedPath s t_read pf musicUrl cfg t_write] assms(1) False
    by auto
  ultimately show ?thesis by simp
qed

text \<open>
  C4 (cache freshness boundary). The timestamp \<open>T\<close> of an entry is what \<open>Date.now()\<close>
  returned when the entry was written, a number of milliseconds since the epoch that is
  not 0. For such an entry a read at \<open>T + 86399999\<close> returns the cached data with no
  upstream call, a read at \<open>T + 86400001\<close> fetches the upstream once, and a read at any
  time makes no upstream call exactly when \<open>now - T < 86400000\<close>.
\<close>

theorem cache_freshness_boundary:
  assumes "kv_get ns (''metadata:'' @ encodedPath) s = (Inr (Some cached), s1)"
    and "timestamp cached \<noteq> 0"
  shows "fetchAndCacheMetadata pf musicUrl encodedPath cfg (Some ns)
            (timestamp cached + 86399999) t_write s = (Inr (data cached), [], s1)
       \<and> fst (snd (fetchAndCacheMetadata pf musicUrl encodedPath cfg (Some ns)
            (timestamp cached + 86400001) t_write s))
          = [unituneApiEndpoint cfg @ ''?url='' @ encodeURIComponent pf (ToString musicUrl)]
       \<and> (fst (snd (fetchAndCacheMetadata pf musicUrl encodedPath cfg (Some ns) t_read t_write s)) = []
            \<longleftrightarrow> t_read - timestamp cached < 86400000)"
proof (intro conjI)
  show "fetchAndCacheMetadata pf musicUrl encodedPath cfg (Some ns)
            (timestamp cached + 86399999) t_write s = (Inr (data cached), [], s1)"
    using assms by (intro fetch_hit) auto
  have miss: "fst (snd (fetchAndCacheMetadata pf musicUrl encodedPath cfg (Some ns) t t_write s))
          = [unituneApiEndpoint cfg @ ''?url='' @ encodeURIComponent pf (ToString musicUrl)]"
    if "\<not> t - timestamp cached < 86400000" for t
    using fetch_miss_requests [of "Some ns" encodedPath s t pf musicUrl cfg t_write] assms(1) that
    by auto
  show "fst (snd (fetchAndCacheMetadata pf musicUrl encodedPath cfg (Some ns)
            (timestamp cached + 86400001) t_write s))
          = [unituneApiEndpoint cfg @ ''?url='' @ encodeURIComponent pf (ToString musicUrl)]"
    by (rule miss) simp
  show "fst (snd (fetchAndCacheMetadata pf musicUrl encodedPath cfg (Some ns) t_read t_write s)) = []
            \<longleftrightarrow> t_read - timestamp cached < 86400000"
  proof (cases "t_read - timestamp cached < 86400000")
    case True
    then show ?thesis using fetch_hit [OF assms(1,2) True] by simp
  next
    case False
    then show ?thesis using miss [OF False] by simp
  qed
qed

theorem cache_freshness_boundary_witness:
  "fetchAndCacheMetadata
        \<lparr>encodeURIComponent = (\<lambda>u. u), fetch = (\<lambda>u. Response 200 (Inr (Json_string ''fetched'')))\<rparr>
        (Js_string ''https://open.spotify.com/track/123'') ''c3BvdGlmeTp0cmFjazoxMjM=''
        \<lparr>unituneApiEndpoint = ''https://api.unitune.art/v1-alpha.1/links'', debugLogging = False\<rparr>
        (Some memory_kv) (1700000000000 + 86399999) (1700000000000 + 86400000)
        [''metadata:c3BvdGlmeTp0cmFjazoxMjM='' \<mapsto> (\<lparr>data = Json_string ''cached'', timestamp = 1700000000000\<rparr>, 86400)]
     = (Inr (Json_string ''cached''), [],
        [''metadata:c3BvdGlmeTp0cmFjazoxMjM='' \<mapsto> (\<lparr>data = Json_string ''cached'', timestamp = 1700000000000\<rparr>, 86400)])
   \<and> fst (snd (fetchAndCacheMetadata
        \<lparr>encodeURIComponent = (\<lambda>u. u), fetch = (\<lambda>u. Response 200 (Inr (Json_string ''fetched'')))\<rparr>
        (Js_string ''https://open.spotify.com/track/123'') ''c3BvdGlmeTp0cmFjazoxMjM=''
        \<lparr>unituneApiEndpoint = ''https://api.unitune.art/v1-alpha.1/links'', debugLogging = False\<rparr>
        (Some memory_kv) (1700000000000 + 86400001) (1700000000000 + 86400002)
        [''metadata:c3BvdGlmeTp0cmFjazoxMjM='' \<mapsto> (\<lparr>data = Json_string ''cached'', timestamp = 1700000000000\<rparr>, 86400)]))
     = [''https://api.unitune.art/v1-alpha.1/links?url=https://open.spotify.com/track/123'']"
proof -
  let ?pf = "\<lparr>encodeURIComponent = (\<lambda>u. u), fetch = (\<lambda>u. Response 200 (Inr (Json_string ''fetched'')))\<rparr>"
  let ?cfg = "\<lparr>unituneApiEndpoint = ''https://api.unitune.art/v1-alpha.1/links'', debugLogging = False\<rparr>"
  let ?entry = "\<lparr>data = Json_string ''cached'', timestamp = 1700000000000\<rparr>"
  let ?m = "[''metadata:c3BvdGlmeTp0cmFjazoxMjM='' \<mapsto> (?entry, 86400 :: nat)]"
  have h1: "kv_get memory_kv (''metadata:'' @ ''c3BvdGlmeTp0cmFjazoxMjM='') ?m = (Inr (Some ?entry), ?m)"
    by (simp add: memory_kv_def)
  have h2: "timestamp ?entry \<noteq> 0" by simp
  note t = cache_freshness_boundary [of memory_kv "''c3BvdGlmeTp0cmFjazoxMjM=''" ?m ?entry ?m
      ?pf "Js_string ''https://open.spotify.com/track/123''" ?cfg "1700000000000 + 86400000"]
  from t [OF h1 h2] have a: "fetchAndCacheMetadata ?pf (Js_string ''https://open.spotify.com/track/123'')
        ''c3BvdGlmeTp0cmFjazoxMjM='' ?cfg (Some memory_kv) (1700000000000 + 86399999)
        (1700000000000 + 86400000) ?m = (Inr (Json_string ''cached''), [], ?m)"
    by simp
  note t2 = cache_freshness_boundary [of memory_kv "''c3BvdGlmeTp0cmFjazoxMjM=''" ?m ?entry ?m
      ?pf "Js_string ''https://open.spotify.com/track/123''" ?cfg "1700000000000 + 86400002"]
  from t2 [OF h1 h2] have b: "fst (snd (fetchAndCacheMetadata ?pf (Js_string ''https://open.spotify.com/track/123'')
        ''c3BvdGlmeTp0cmFjazoxMjM='' ?cfg (Some memory_kv) (1700000000000 + 86400001)
        (1700000000000 + 86400002) ?m))
        = [''https://api.unitune.art/v1-alpha.1/links?url=https://open.spotify.com/track/123'']"
    by simp
  from a b show ?thesis by blast
qed

text \<open>
  C5 does not hold of the code: the read of the cache stands before the \<open>try\<close> block, so
  an exception of \<open>SONG_CACHE.get\<close> leaves \<open>fetchAndCacheMetadata\<close> as an exception and no
  upstream fetch is made.
\<close>

theorem fetchAndCacheMetadata_cache_read_throws:
  "fetchAndCacheMetadata
        \<lparr>encodeURIComponent = (\<lambda>u. u), fetch = (\<lambda>u. Response 200 (Inr (Json_string ''fetched'')))\<rparr>
        (Js_string ''https://open.spotify.com/track/123'') ''c3BvdGlmeTp0cmFjazoxMjM=''
        \<lparr>unituneApiEndpoint = ''https://api.unitune.art/v1-alpha.1/links'', debugLogging = False\<rparr>
        (Some \<lparr>kv_get = (\<lambda>k s. (Inl Store_failure, s)), kv_put = (\<lambda>k v ttl s. (Inr (), s))\<rparr>)
        1700000000000 1700000000001 ()
     = (Inl Store_failure, [], ())"
  by (simp add: fetchAndCacheMetadata_def)

text \<open>
  When the store is absent or its read returns, the function returns a value, whatever
  the upstream and the cache write do; an upstream exception or a status outside 200 to
  299 gives \<open>null\<close>. A cache write that throws is caught, but the \<open>catch\<close> returns \<open>null\<close>:
  the metadata that was fetched is lost.
\<close>

lemma fetchAndCacheMetadata_returns:
  assumes "SONG_CACHE = None \<or> (\<exists>ns x s1. SONG_CACHE = Some ns \<and> kv_get ns (''metadata:'' @ encodedPath) s = (Inr x, s1))"
  shows "\<exists>r. fst (fetchAndCacheMetadata pf musicUrl encodedPath cfg SONG_CACHE t_read t_write s) = Inr r"
  using assms
  by (auto simp: fetchAndCacheMetadata_def Let_def
      split: fetch_reply.splits sum.splits prod.splits option.splits)

lemma fetchAndCacheMetadata_upstream_failure:
  assumes "SONG_CACHE = None"
    and "fetch pf (unituneApiEndpoint cfg @ ''?url='' @ encodeURIComponent pf (ToString musicUrl)) = reply"
    and "(\<exists>e. reply = Fetch_throws e) \<or> (\<exists>status body. reply = Response status body \<and> \<not> response_ok status)"
  shows "fst (fetchAndCacheMetadata pf musicUrl encodedPath cfg SONG_CACHE t_read t_write s) = Inr Json_null"
  using assms
  by (auto simp: fetchAndCacheMetadata_def Let_def)

lemma fetchAndCacheMetadata_cache_write_throws:
  assumes "kv_get ns (''metadata:'' @ encodedPath) s = (Inr None, s1)"
    and "fetch pf (unituneApiEndpoint cfg @ ''?url='' @ encodeURIComponent pf (ToString musicUrl))
           = Response status (Inr metadata)"
    and "response_ok status" and "truthy metadata"
    and "kv_put ns (''metadata:'' @ encodedPath) \<lparr>data = metadata, timestamp = t_write\<rparr> 86400 s1
           = (Inl e, s2)"
  shows "fetchAndCacheMetadata pf musicUrl encodedPath cfg (Some ns) t_read t_write s
         = (Inr Json_null,
            [unituneApiEndpoint cfg @ ''?url='' @ encodeURIComponent pf (ToString musicUrl)], s2)"
  using assms by (simp add: fetchAndCacheMetadata_def Let_def)

section \<open>Properties of the share-link decoder\<close>

subsection \<open>Base64: decoding an encoded text gives the text back\<close>

lemma sextets_bytes_roundtrip:
  "\<forall>b\<in>set bs. b < 256 \<Longrightarrow> sextets_to_bytes (bytes_to_sextets bs) = bs"
proof (induction bs rule: bytes_to_sextets.induct)
  case (1 x y z rest)
  have y: "y < 256" and z: "z < 256" using 1(2) by auto
  have a: "x div 4 * 4 + ((x mod 4) * 16 + y div 16) div 16 = x"
    using y by (simp add: div_mult_self3)
  have b: "(((x mod 4) * 16 + y div 16) mod 16) * 16 + ((y mod 16) * 4 + z div 64) div 4 = y"
    using y z by (simp add: div_mult_self3)
  have c: "(((y mod 16) * 4 + z div 64) mod 4) * 64 + z mod 64 = z"
    using z by simp
  show ?case using 1 a b c by simp
next
  case (2 x y)
  have y: "y < 256" using 2 by auto
  have a: "x div 4 * 4 + ((x mod 4) * 16 + y div 16) div 16 = x"
    using y by (simp add: div_mult_self3)
  have b: "(((x mod 4) * 16 + y div 16) mod 16) * 16 + ((y mod 16) * 4) div 4 = y"
    using y by (simp add: div_mult_self3)
  show ?case using a b by simp
next
  case (3 x)
  have "x div 4 * 4 + ((x mod 4) * 16) div 16 = x" by simp
  then show ?case by simp
next
  case 4
  then show ?case by simp
qed

lemma sextets_bound:
  "\<forall>b\<in>set bs. b < 256 \<Longrightarrow> \<forall>v\<in>set (bytes_to_sextets bs). v < 64"
proof (induction bs rule: bytes_to_sextets.induct)
  case (1 x y z rest)
  have "x < 256" "y < 256" "z < 256" using 1(2) by auto
  then have "x div 4 < 64" "(x mod 4) * 16 + y div 16 < 64" "(y mod 16) * 4 + z div 64 < 64" "z mod 64 < 64"
    by simp_all
  then show ?case using 1 by simp
next
  case (2 x y)
  have "x < 256" "y < 256" using 2 by auto
  then have "x div 4 < 64" "(x mod 4) * 16 + y div 16 < 64" "(y mod 16) * 4 < 64"
    by simp_all
  then show ?case by simp
next
  case (3 x)
  then have "x div 4 < 64" "(x mod 4) * 16 < 64" by simp_all
  then show ?case by simp
next
  case 4
  then show ?case by simp
qed

lemma sextets_length_mod:
  "length (bytes_to_sextets bs) mod 4 = (if length bs mod 3 = 0 then 0 else if length bs mod 3 = 1 then 2 else 3)"
  by (induction bs rule: bytes_to_sextets.induct) (simp_all add: mod_Suc)


lemma replace_all_url: 
  "replace_all CHR ''_'' CHR ''/'' (replace_all CHR ''-'' CHR ''+'' s) = map url_to_std s"
  by (simp add: replace_all_def url_to_std_def)

lemma char_eq_code: "c = d \<longleftrightarrow> (of_char c :: nat) = of_char d"
  by simp

lemma b64url_char_code:
  "v < 64 \<Longrightarrow> (of_char (b64url_char v) :: nat) =
     (if v < 26 then v + 65 else if v < 52 then v + 71 else if v < 62 then v - 4
      else if v = 62 then 45 else 95)"
  by (simp add: b64url_char_def)

lemma b64url_char_minus:
  assumes "v < 64"
  shows "b64url_char v = CHR ''-'' \<longleftrightarrow> v = 62"
proof -
  have "b64url_char v = CHR ''-'' \<longleftrightarrow> (of_char (b64url_char v) :: nat) = 45"
    by (subst char_eq_code) simp
  then show ?thesis using assms by (auto simp: b64url_char_code split: if_splits)
qed

lemma b64url_char_underscore:
  assumes "v < 64"
  shows "b64url_char v = CHR ''_'' \<longleftrightarrow> v = 63"
proof -
  have "b64url_char v = CHR ''_'' \<longleftrightarrow> (of_char (b64url_char v) :: nat) = 95"
    by (subst char_eq_code) simp
  then show ?thesis using assms by (auto simp: b64url_char_code split: if_splits)
qed

lemma url_to_std_code:
  assumes "v < 64"
  shows "(of_char (url_to_std (b64url_char v)) :: nat) =
     (if v < 26 then v + 65 else if v < 52 then v + 71 else if v < 62 then v - 4
      else if v = 62 then 43 else 47)"
proof -
  have "url_to_std (b64url_char v) =
      (if v = 62 then CHR ''+'' else if v = 63 then CHR ''/'' else b64url_char v)"
    unfolding url_to_std_def
    using b64url_char_minus [OF assms] b64url_char_underscore [OF assms] by auto
  then show ?thesis using assms by (auto simp: b64url_char_code)
qed

lemma b64_value_url:
  assumes "v < 64"
  shows "b64_value (url_to_std (b64url_char v)) = Some v"
  unfolding b64_value_def Let_def url_to_std_code [OF assms]
  using assms by auto

lemma url_to_std_not_pad:
  assumes "v < 64"
  shows "url_to_std (b64url_char v) \<noteq> CHR ''=''"
proof
  assume "url_to_std (b64url_char v) = CHR ''=''"
  then have "(of_char (url_to_std (b64url_char v)) :: nat) = of_char CHR ''=''" by simp
  then show False unfolding url_to_std_code [OF assms] using assms by (auto split: if_splits)
qed

lemma url_to_std_not_space:
  assumes "v < 64"
  shows "\<not> is_ascii_whitespace (url_to_std (b64url_char v))"
proof
  assume "is_ascii_whitespace (url_to_std (b64url_char v))"
  then have "(of_char (url_to_std (b64url_char v)) :: nat) \<in> {9, 10, 12, 13, 32}"
    unfolding is_ascii_whitespace_def by (auto simp del: of_char_eq_iff simp add: char_eq_code)
  then show False unfolding url_to_std_code [OF assms] using assms by (auto split: if_splits)
qed

lemma url_to_std_pad: "url_to_std CHR ''='' = CHR ''=''"
  by (simp add: url_to_std_def)

lemma pad_not_space: "\<not> is_ascii_whitespace CHR ''=''"
  by (simp add: is_ascii_whitespace_def)


lemma pad_base64_closed:
  "pad_base64 s = s @ replicate ((4 - length s mod 4) mod 4) CHR ''=''"
proof (induction s rule: pad_base64.induct)
  case (1 padded)
  show ?case
  proof (cases "length padded mod 4 = 0")
    case True
    then show ?thesis by (simp add: pad_base64.simps)
  next
    case False
    have step: "(4 - length padded mod 4) mod 4 = Suc ((4 - length (padded @ ''='') mod 4) mod 4)"
      using pad_step [OF False] by simp
    have "pad_base64 padded = pad_base64 (padded @ ''='')"
      using False by (subst pad_base64.simps) simp
    also have "\<dots> = (padded @ ''='') @ replicate ((4 - length (padded @ ''='') mod 4) mod 4) CHR ''=''"
      using 1 False by simp
    also have "\<dots> = padded @ replicate ((4 - length padded mod 4) mod 4) CHR ''=''"
      unfolding step by simp
    finally show ?thesis .
  qed
qed

lemma those_map_Some:
  "\<forall>x\<in>set xs. f x = Some (g x) \<Longrightarrow> those (map f xs) = Some (map g xs)"
  by (induction xs) auto

lemma strip_padding_replicate:
  assumes "CHR ''='' \<notin> set B" and "(length B + k) mod 4 = 0" and "k \<le> 2"
  shows "strip_padding (B @ replicate k CHR ''='') = B"
proof -
  have nosuf: "\<not> suffix ''='' B" "\<not> suffix ''=='' B"
    using assms(1) by (auto simp: suffix_def)
  consider "k = 0" | "k = 1" | "k = 2" using assms(3) by linarith
  then show ?thesis
  proof cases
    case 1
    then show ?thesis using nosuf by (simp add: strip_padding_def)
  next
    case 2
    have "\<not> suffix ''=='' (B @ ''='')"
      using assms(1) by (auto simp: suffix_def append_eq_append_conv2 Cons_eq_append_conv append_eq_Cons_conv)
    moreover have "suffix ''='' (B @ ''='')" by (simp add: suffix_def)
    ultimately show ?thesis using 2 assms(2) by (simp add: strip_padding_def)
  next
    case 3
    have "suffix ''=='' (B @ ''=='')" by (simp add: suffix_def)
    moreover have "replicate 2 CHR ''='' = ''==''" by (simp add: numeral_2_eq_2)
    ultimately show ?thesis using 3 assms(2) by (simp add: strip_padding_def)
  qed
qed

lemma pad_amount:
  "(4 - length (bytes_to_sextets bs) mod 4) mod 4 = (3 - length bs mod 3) mod 3"
proof -
  have "length bs mod 3 < 3" by simp
  then consider "length bs mod 3 = 0" | "length bs mod 3 = 1" | "length bs mod 3 = 2" by linarith
  then show ?thesis by cases (simp_all add: sextets_length_mod)
qed

lemma padded_length:
  "(length (bytes_to_sextets bs) + (3 - length bs mod 3) mod 3) mod 4 = 0"
proof -
  have "length bs mod 3 < 3" by simp
  then consider "length bs mod 3 = 0" | "length bs mod 3 = 1" | "length bs mod 3 = 2" by linarith
  then show ?thesis
  proof cases
    case 1
    then show ?thesis using sextets_length_mod [of bs] by simp
  next
    case 2
    then have "length (bytes_to_sextets bs) mod 4 = 2" by (simp add: sextets_length_mod)
    then have "(length (bytes_to_sextets bs) + 2) mod 4 = 0" by presburger
    then show ?thesis using 2 by simp
  next
    case 3
    then have "length (bytes_to_sextets bs) mod 4 = 3" by (simp add: sextets_length_mod)
    then have "(length (bytes_to_sextets bs) + 1) mod 4 = 0" by presburger
    then show ?thesis using 3 by simp
  qed
qed

lemma atob_base64url_encode:
  "atob (replace_all CHR ''_'' CHR ''/'' (replace_all CHR ''-'' CHR ''+''
           (pad_base64 (base64url_encode padding s)))) = Inr s"
proof -
  define bs :: "nat list" where "bs = map of_char s"
  define sx where "sx = bytes_to_sextets bs"
  define k where "k = (3 - length s mod 3) mod 3"
  define B where "B = map url_to_std (map b64url_char sx)"
  have bytes: "\<forall>b\<in>set bs. b < 256" by (simp add: bs_def)
  have sx64: "\<forall>v\<in>set sx. v < 64" unfolding sx_def using sextets_bound [OF bytes] .
  have len: "length bs = length s" by (simp add: bs_def)
  have k2: "k \<le> 2" unfolding k_def by simp
  have lenB: "length B = length sx" by (simp add: B_def)
  have amount: "(4 - length sx mod 4) mod 4 = k"
    unfolding sx_def k_def using pad_amount [of bs] len by simp
  have total: "(length sx + k) mod 4 = 0"
    unfolding sx_def k_def using padded_length [of bs] len by simp
  have "pad_base64 (base64url_encode padding s) = map b64url_char sx @ replicate k CHR ''=''"
  proof (cases padding)
    case True
    then have e: "base64url_encode padding s = map b64url_char sx @ replicate k CHR ''=''"
      by (simp add: base64url_encode_def sx_def bs_def k_def)
    show ?thesis unfolding pad_base64_closed e using total by simp
  next
    case False
    then have e: "base64url_encode padding s = map b64url_char sx"
      by (simp add: base64url_encode_def sx_def bs_def)
    show ?thesis unfolding pad_base64_closed e using amount by simp
  qed
  then have input: "replace_all CHR ''_'' CHR ''/'' (replace_all CHR ''-'' CHR ''+''
           (pad_base64 (base64url_encode padding s))) = B @ replicate k CHR ''=''"
    by (simp add: replace_all_url B_def url_to_std_pad)
  have nospace: "filter (\<lambda>c. \<not> is_ascii_whitespace c) (B @ replicate k CHR ''='') = B @ replicate k CHR ''=''"
    using sx64 by (auto simp: B_def url_to_std_not_space pad_not_space filter_id_conv)
  have nopad: "CHR ''='' \<notin> set B"
  proof
    assume "CHR ''='' \<in> set B"
    then obtain v where "v \<in> set sx" "url_to_std (b64url_char v) = CHR ''=''"
      by (auto simp: B_def)
    then show False using sx64 url_to_std_not_pad [of v] by auto
  qed
  have strip: "strip_padding (B @ replicate k CHR ''='') = B"
    using strip_padding_replicate [OF nopad _ k2] total lenB by simp
  have not1: "length B mod 4 \<noteq> 1"
    unfolding lenB sx_def by (simp add: sextets_length_mod)
  have vals: "those (map b64_value B) = Some sx"
  proof -
    have "those (map (\<lambda>v. b64_value (url_to_std (b64url_char v))) sx) = Some (map (\<lambda>v. v) sx)"
      by (rule those_map_Some) (use sx64 b64_value_url in auto)
    then show ?thesis by (simp add: B_def comp_def)
  qed
  have bytes_back: "map char_of (sextets_to_bytes sx) = s"
    unfolding sx_def sextets_bytes_roundtrip [OF bytes] by (simp add: bs_def comp_def)
  show ?thesis
    unfolding input atob_def nospace strip Let_def using not1 vals bytes_back by simp
qed

subsection \<open>Splitting the decoded text\<close>

lemma split_append: "sep \<notin> set p \<Longrightarrow> split sep (p @ sep # r) = p # split sep r"
  by (induction p) auto

lemma split_not_Nil: "split sep s \<noteq> []"
  by (induction s) (auto split: list.splits)

lemma join_split: "join [sep] (split sep s) = s"
proof (induction s)
  case Nil
  then show ?case by simp
next
  case (Cons c cs)
  obtain p ps where sp: "split sep cs = p # ps"
    using split_not_Nil [of sep cs] by (cases "split sep cs") auto
  show ?case
  proof (cases "c = sep")
    case True
    with Cons sp show ?thesis by simp
  next
    case False
    with Cons sp show ?thesis by (cases ps) auto
  qed
qed

lemma includes_char: "includes_str s [c] \<longleftrightarrow> c \<in> set s"
  unfolding includes_str_def
  by (induction s) (auto simp: sublist_Cons_right)

lemma prefix_http_colon:
  "CHR '':'' \<notin> set p \<Longrightarrow> prefix ''http'' (p @ CHR '':'' # r) \<longleftrightarrow> prefix ''http'' p"
  by (auto simp: prefix_def Cons_eq_append_conv append_eq_Cons_conv)

text \<open>The decoding step on a text that \<open>atob\<close> turns into a triple.\<close>

lemma decode_share_link_triple:
  assumes "atob (replace_all CHR ''_'' CHR ''/'' (replace_all CHR ''-'' CHR ''+''
              (pad_base64 identifier))) = Inr (platform @ '':'' @ type @ '':'' @ id')"
    and "CHR '':'' \<notin> set platform" and "CHR '':'' \<notin> set type"
  shows "decode_share_link identifier =
     (if prefix ''http'' platform then Music_url None
      else (case reconstructMusicUrl platform type id' of
              None \<Rightarrow> Respond (Error_page 400 ''Unsupported music platform.'')
            | Some musicUrl \<Rightarrow> Music_url (Some musicUrl)))"
proof -
  let ?decoded = "platform @ '':'' @ type @ '':'' @ id'"
  obtain p ps where sp: "split CHR '':'' id' = p # ps"
    using split_not_Nil [of "CHR '':''" id'] by (cases "split CHR '':'' id'") auto
  have parts: "split CHR '':'' ?decoded = platform # type # p # ps"
    using assms(2,3) sp by (simp add: split_append)
  have ident: "join '':'' (p # ps) = id'"
    using join_split [of "CHR '':''" id'] sp by simp
  have colon: "includes_str ?decoded '':''" by (simp add: includes_char)
  have http: "prefix ''http'' ?decoded \<longleftrightarrow> prefix ''http'' platform"
    using prefix_http_colon [OF assms(2)] by simp
  show ?thesis
    unfolding decode_share_link_def assms(1)
    using parts ident colon http by (simp split: option.splits)
qed

lemma urls_keys:
  "map fst (urls type id') =
     [''spotify'', ''tidal'', ''applemusic'', ''youtubemusic'', ''youtube'', ''deezer'', ''amazonmusic'']"
  by (simp add: urls_def)

lemma reconstructMusicUrl_unsupported:
  assumes "toLowerCase platform \<notin> set [''spotify'', ''tidal'', ''applemusic'', ''youtubemusic'',
             ''youtube'', ''deezer'', ''amazonmusic'']"
    and "toLowerCase platform \<notin> set Object_prototype_members"
  shows "reconstructMusicUrl platform type id' = None"
proof -
  have "toLowerCase platform \<notin> set (map fst (urls type id'))"
    using assms(1) unfolding urls_keys .
  then have "map_of (urls type id') (toLowerCase platform) = None"
    by (simp add: map_of_eq_None_iff)
  then show ?thesis using assms(2) by (simp add: reconstructMusicUrl_def property_get_def)
qed

lemma reconstructMusicUrl_supported:
  assumes "map_of (urls type id') (toLowerCase platform) = Some url"
  shows "reconstructMusicUrl platform type id' = Some (Js_string url)" and "url \<noteq> []"
proof -
  show "url \<noteq> []"
    using assms by (auto simp: urls_def split: if_splits)
  then show "reconstructMusicUrl platform type id' = Some (Js_string url)"
    using assms by (cases url) (simp_all add: reconstructMusicUrl_def property_get_def)
qed

lemma lower_char_fixed:
  "lower_char CHR '':'' = CHR '':''" "lower_char CHR ''h'' = CHR ''h''"
  by (simp_all add: lower_char_def)

lemma supported_no_colon:
  assumes "map_of (urls type id') (toLowerCase platform) = Some url"
  shows "CHR '':'' \<notin> set platform"
proof
  assume "CHR '':'' \<in> set platform"
  then have "lower_char CHR '':'' \<in> set (toLowerCase platform)"
    unfolding toLowerCase_def by (simp add: image_iff) blast
  then have "CHR '':'' \<in> set (toLowerCase platform)" by (simp add: lower_char_fixed)
  moreover have "toLowerCase platform \<in> set (map fst (urls type id'))"
    using assms by (metis map_of_SomeD fst_conv image_eqI set_map)
  ultimately show False unfolding urls_keys by auto
qed

lemma supported_not_http:
  assumes "map_of (urls type id') (toLowerCase platform) = Some url"
  shows "\<not> prefix ''http'' platform"
proof
  assume "prefix ''http'' platform"
  then obtain r where "platform = CHR ''h'' # r" by (auto simp: prefix_def)
  then have "\<exists>r'. toLowerCase platform = CHR ''h'' # r'"
    by (simp add: toLowerCase_def lower_char_fixed)
  moreover have "toLowerCase platform \<in> set (map fst (urls type id'))"
    using assms by (metis map_of_SomeD fst_conv image_eqI set_map)
  ultimately show False unfolding urls_keys by auto
qed

text \<open>A lower-case form holds no capital ASCII letter.\<close>

lemma toLowerCase_no_capitals:
  "\<forall>c\<in>set (toLowerCase p). \<not> (65 \<le> (of_char c :: nat) \<and> (of_char c :: nat) \<le> 90)"
proof
  fix c assume "c \<in> set (toLowerCase p)"
  then obtain d where "c = lower_char d" by (auto simp: toLowerCase_def)
  then show "\<not> (65 \<le> (of_char c :: nat) \<and> (of_char c :: nat) \<le> 90)"
    by (simp add: lower_char_code)
qed

text \<open>
  So of the members of \<open>Object.prototype\<close> only \<open>constructor\<close> and \<open>__proto__\<close> can be the
  key of the lookup.
\<close>

lemma inherited_keys:
  assumes "toLowerCase platform \<in> set Object_prototype_members"
  shows "toLowerCase platform = ''constructor'' \<or> toLowerCase platform = ''__proto__''"
proof (rule ccontr)
  assume other: "\<not> (toLowerCase platform = ''constructor'' \<or> toLowerCase platform = ''__proto__'')"
  have "\<exists>c\<in>set (toLowerCase platform). 65 \<le> (of_char c :: nat) \<and> (of_char c :: nat) \<le> 90"
    using assms other by (auto simp: Object_prototype_members_def)
  then show False using toLowerCase_no_capitals by blast
qed

text \<open>
  The decoding step on a text that \<open>atob\<close> turns into a platform without a colon, a colon
  and any rest: when the lookup of the platform gives \<open>null\<close>, \<open>musicUrl\<close> stays \<open>null\<close>.
\<close>

lemma decode_share_link_no_platform:
  assumes "atob (replace_all CHR ''_'' CHR ''/'' (replace_all CHR ''-'' CHR ''+''
              (pad_base64 identifier))) = Inr (platform @ '':'' @ rest)"
    and "CHR '':'' \<notin> set platform"
    and "\<And>type id'. reconstructMusicUrl platform type id' = None"
  shows "decoded_url (decode_share_link identifier) = None"
proof -
  obtain a as where sp: "split CHR '':'' rest = a # as"
    using split_not_Nil [of "CHR '':''" rest] by (cases "split CHR '':'' rest") auto
  have parts: "split CHR '':'' (platform @ '':'' @ rest) = platform # a # as"
    using assms(2) sp by (simp add: split_append)
  show ?thesis
  proof (cases as)
    case Nil
    then show ?thesis
      unfolding decode_share_link_def assms(1) using parts by (simp add: decoded_url_def)
  next
    case (Cons b bs)
    then show ?thesis
      unfolding decode_share_link_def assms(1) using parts assms(3)
      by (simp add: decoded_url_def)
  qed
qed

text \<open>The two decoding scenarios of the specification.\<close>

lemma decode_scenarios:
  "decode_share_link ''c3BvdGlmeTp0cmFjazoxMjM=''
     = Music_url (Some (Js_string ''https://open.spotify.com/track/123''))"
  "decode_share_link ''dGlkYWw6YWxidW06NDU2''
     = Music_url (Some (Js_string ''https://tidal.com/browse/album/456''))"
  by code_simp+

text \<open>
  The round trip of C6 holds. For every platform whose lower-case name is a key of the
  template table, every type (it is the text between the first two colons, so it holds no
  colon) and every id, colons allowed, the decoding step on the URL-safe Base64 encoding
  of \<open>platform:type:id\<close>, padded or not, yields the URL the platform's template makes of
  type and id.
\<close>

lemma decode_round_trip:
  assumes "map_of (urls type id') (toLowerCase platform) = Some url"
    and "CHR '':'' \<notin> set type"
  shows "decode_share_link (base64url_encode padding (platform @ '':'' @ type @ '':'' @ id'))
           = Music_url (Some (Js_string url))"
proof -
  let ?identifier = "base64url_encode padding (platform @ '':'' @ type @ '':'' @ id')"
  have dec: "atob (replace_all CHR ''_'' CHR ''/'' (replace_all CHR ''-'' CHR ''+''
              (pad_base64 ?identifier))) = Inr (platform @ '':'' @ type @ '':'' @ id')"
    by (rule atob_base64url_encode)
  have "CHR '':'' \<notin> set platform" "\<not> prefix ''http'' platform"
    using supported_no_colon [OF assms(1)] supported_not_http [OF assms(1)] by blast+
  then show ?thesis
    using decode_share_link_triple [OF dec] assms(2) reconstructMusicUrl_supported(1) [OF assms(1)]
    by simp
qed

lemma decode_round_trip_examples:
  "decode_share_link (base64url_encode False (''Spotify'' @ '':'' @ ''track'' @ '':'' @ ''12:3''))
     = Music_url (Some (Js_string ''https://open.spotify.com/track/12:3''))"
  "decode_share_link (base64url_encode True (''DEEZER'' @ '':'' @ ''album'' @ '':'' @ ''77''))
     = Music_url (Some (Js_string ''https://www.deezer.com/album/77''))"
proof -
  have "map_of (urls ''track'' ''12:3'') (toLowerCase ''Spotify'')
          = Some ''https://open.spotify.com/track/12:3''" by code_simp
  then show "decode_share_link (base64url_encode False (''Spotify'' @ '':'' @ ''track'' @ '':'' @ ''12:3''))
     = Music_url (Some (Js_string ''https://open.spotify.com/track/12:3''))"
    by (rule decode_round_trip) simp
  have "map_of (urls ''album'' ''77'') (toLowerCase ''DEEZER'')
          = Some ''https://www.deezer.com/album/77''" by code_simp
  then show "decode_share_link (base64url_encode True (''DEEZER'' @ '':'' @ ''album'' @ '':'' @ ''77''))
     = Music_url (Some (Js_string ''https://www.deezer.com/album/77''))"
    by (rule decode_round_trip) simp
qed

text \<open>
  The second half of C6 holds for every platform without a colon whose lower-case name
  is neither a key of the table nor \<open>constructor\<close> nor \<open>__proto__\<close>, whatever follows the
  platform: the decoding step leaves \<open>musicUrl\<close> \<open>null\<close>.
\<close>

lemma decode_unsupported_null:
  assumes "toLowerCase platform \<notin> set [''spotify'', ''tidal'', ''applemusic'', ''youtubemusic'',
             ''youtube'', ''deezer'', ''amazonmusic'']"
    and "toLowerCase platform \<noteq> ''constructor''" and "toLowerCase platform \<noteq> ''__proto__''"
    and "CHR '':'' \<notin> set platform"
  shows "decoded_url (decode_share_link (base64url_encode padding (platform @ '':'' @ rest))) = None"
proof -
  have "toLowerCase platform \<notin> set Object_prototype_members"
    using inherited_keys assms(2,3) by blast
  then have none: "reconstructMusicUrl platform type id' = None" for type id'
    using reconstructMusicUrl_unsupported [OF assms(1)] by blast
  show ?thesis
    by (rule decode_share_link_no_platform [OF atob_base64url_encode assms(4) none])
qed

text \<open>
  C6 does not hold of the code for the unsupported platform \<open>constructor\<close> (and
  \<open>__proto__\<close>): \<open>urls[platform.toLowerCase()]\<close> finds the member that the object literal
  inherits from \<open>Object.prototype\<close>, which is truthy, so \<open>reconstructMusicUrl\<close> does not
  return \<open>null\<close> and the decoding step sets \<open>musicUrl\<close> to it. The identifier is the
  URL-safe Base64 encoding of \<open>constructor:track:1\<close>.
\<close>

theorem inherited_platform_is_not_null:
  "base64url_encode False (''constructor'' @ '':'' @ ''track'' @ '':'' @ ''1'')
     = ''Y29uc3RydWN0b3I6dHJhY2s6MQ''
   \<and> toLowerCase ''constructor'' \<notin> set [''spotify'', ''tidal'', ''applemusic'', ''youtubemusic'',
         ''youtube'', ''deezer'', ''amazonmusic'']
   \<and> reconstructMusicUrl ''constructor'' ''track'' ''1'' = Some (Prototype_member ''constructor'')
   \<and> decoded_url (decode_share_link ''Y29uc3RydWN0b3I6dHJhY2s6MQ'')
     = Some (Prototype_member ''constructor'')
   \<and> decoded_url (decode_share_link (base64url_encode True (''__PROTO__'' @ '':'' @ ''album'' @ '':'' @ ''7'')))
     = Some (Prototype_member ''__proto__'')"
  by code_simp

text \<open>
  C8 as stated fails. For the unsupported platform \<open>soundcloud\<close> the handler answers with
  status 400, not 404. For the unsupported platform \<open>constructor\<close> it answers neither: the
  lookup finds the inherited member, the handler goes on, sends the member's text to the
  upstream as the URL (here with the identity in the place of \<open>encodeURIComponent\<close>) and,
  when the upstream answers with metadata, returns the page.
\<close>

theorem unsupported_platform_counterexample:
  "atob ''c291bmRjbG91ZDp0cmFjazox'' = Inr ''soundcloud:track:1''
   \<and> handleShareLink
        \<lparr>landing_page_html = (\<lambda>u m c. Inr ''<html>bot</html>''),
         loading_page_html = (\<lambda>u m c. Inr ''<html>user</html>'')\<rparr>
        \<lparr>encodeURIComponent = (\<lambda>u. u), fetch = (\<lambda>u. Response 200 (Inr (Json_string ''fetched'')))\<rparr>
        ''/s/c291bmRjbG91ZDp0cmFjazox'' None
        \<lparr>unituneApiEndpoint = ''https://api.unitune.art/v1-alpha.1/links'', debugLogging = False\<rparr>
        (None :: (cached_metadata, unit) kv_namespace option) 0 0 ()
      = (Inr (Error_page 400 ''Unsupported music platform.''), [], ())
   \<and> atob ''Y29uc3RydWN0b3I6dHJhY2s6MQ=='' = Inr ''constructor:track:1''
   \<and> handleShareLink
        \<lparr>landing_page_html = (\<lambda>u m c. Inr ''<html>bot</html>''),
         loading_page_html = (\<lambda>u m c. Inr ''<html>user</html>'')\<rparr>
        \<lparr>encodeURIComponent = (\<lambda>u. u), fetch = (\<lambda>u. Response 200 (Inr (Json_string ''fetched'')))\<rparr>
        ''/s/Y29uc3RydWN0b3I6dHJhY2s6MQ'' None
        \<lparr>unituneApiEndpoint = ''https://api.unitune.art/v1-alpha.1/links'', debugLogging = False\<rparr>
        (None :: (cached_metadata, unit) kv_namespace option) 0 0 ()
      = (Inr (Html_page ''<html>user</html>''),
         [''https://api.unitune.art/v1-alpha.1/links?url=function Object() { [native code] }''], ())"
  by code_simp

text \<open>
  C8 (amended). When the identifier of \<open>/s/{identifier}\<close> decodes to \<open>platform:type:id\<close>
  with an unsupported platform, one whose lower-case name is not a key of the template
  table, and that name is not \<open>constructor\<close> or \<open>__proto__\<close>, \<open>handleShareLink\<close> answers with
  status 400, fetches nothing and leaves the store as it was.
\<close>

theorem unsupported_platform_status_400:
  assumes "atob (replace_all CHR ''_'' CHR ''/'' (replace_all CHR ''-'' CHR ''+''
              (pad_base64 identifier))) = Inr (platform @ '':'' @ type @ '':'' @ id')"
    and "CHR '':'' \<notin> set platform" and "CHR '':'' \<notin> set type"
    and "toLowerCase platform \<notin> set [''spotify'', ''tidal'', ''applemusic'', ''youtubemusic'',
           ''youtube'', ''deezer'', ''amazonmusic'']"
    and "toLowerCase platform \<noteq> ''constructor''" and "toLowerCase platform \<noteq> ''__proto__''"
  shows "handleShareLink tp pf (''/s/'' @ identifier) user_agent_header cfg SONG_CACHE t_read t_write s
     = (Inr (Error_page 400 (if prefix ''http'' platform then ''Invalid share link.''
                             else ''Unsupported music platform.'')), [], s)"
proof -
  have "toLowerCase platform \<notin> set Object_prototype_members"
    using inherited_keys assms(5,6) by blast
  then have "reconstructMusicUrl platform type id' = None"
    using reconstructMusicUrl_unsupported [OF assms(4)] by blast
  then have "decode_share_link identifier =
     (if prefix ''http'' platform then Music_url None
      else Respond (Error_page 400 ''Unsupported music platform.''))"
    using decode_share_link_triple [OF assms(1,2,3)] by simp
  then show ?thesis by (simp add: handleShareLink_def)
qed

theorem unsupported_platform_status_400_witness:
  "handleShareLink
        \<lparr>landing_page_html = (\<lambda>u m c. Inr ''<html>bot</html>''),
         loading_page_html = (\<lambda>u m c. Inr ''<html>user</html>'')\<rparr>
        \<lparr>encodeURIComponent = (\<lambda>u. u), fetch = (\<lambda>u. Response 200 (Inr (Json_string ''fetched'')))\<rparr>
        (''/s/'' @ ''c291bmRjbG91ZDp0cmFjazox'') None
        \<lparr>unituneApiEndpoint = ''https://api.unitune.art/v1-alpha.1/links'', debugLogging = False\<rparr>
        (None :: (cached_metadata, unit) kv_namespace option) 0 0 ()
      = (Inr (Error_page 400 ''Unsupported music platform.''), [], ())"
proof -
  have h1: "atob (replace_all CHR ''_'' CHR ''/'' (replace_all CHR ''-'' CHR ''+''
              (pad_base64 ''c291bmRjbG91ZDp0cmFjazox''))) = Inr (''soundcloud'' @ '':'' @ ''track'' @ '':'' @ ''1'')"
    by code_simp
  have h2: "CHR '':'' \<notin> set ''soundcloud''" and h3: "CHR '':'' \<notin> set ''track''" by simp_all
  have h4: "toLowerCase ''soundcloud'' \<notin> set [''spotify'', ''tidal'', ''applemusic'', ''youtubemusic'',
           ''youtube'', ''deezer'', ''amazonmusic'']" by code_simp
  have h5: "toLowerCase ''soundcloud'' \<noteq> ''constructor''" by code_simp
  have h6: "toLowerCase ''soundcloud'' \<noteq> ''__proto__''" by code_simp
  have h7: "\<not> prefix ''http'' ''soundcloud''" by simp
  from unsupported_platform_status_400 [OF h1 h2 h3 h4 h5 h6] h7 show ?thesis by simp
qed

text \<open>
  The renderer's own error path: when the body of \<open>getServerSideRenderedPage\<close> throws, a
  bot gets the error page with status 500.
\<close>

lemma bot_renderer_error_page:
  "fst (handleShareLink
        \<lparr>landing_page_html = (\<lambda>u m c. Inl Syntax_error),
         loading_page_html = (\<lambda>u m c. Inr ''<html>user</html>'')\<rparr>
        \<lparr>encodeURIComponent = (\<lambda>u. u),
         fetch = (\<lambda>u. Response 200 (Inr (Json_object [(''title'', Json_number 5)])))\<rparr>
        ''/s/c3BvdGlmeTp0cmFjazoxMjM='' (Some ''facebookexternalhit/1.1'')
        \<lparr>unituneApiEndpoint = ''https://api.unitune.art/v1-alpha.1/links'', debugLogging = False\<rparr>
        (None :: (cached_metadata, unit) kv_namespace option) 0 0 ())
      = Inr (Error_page 500 ''Unable to load song. Please try again later.'')"
  by code_simp

end
